theory Spec2Isabelle
  imports Main
begin

section \<open>Data model (shared/models.ts)\<close>

text \<open>
  The records follow the TypeScript interfaces. An optional field \<open>f?: T\<close> is a
  \<open>T option\<close>. Field names carry a short prefix where two interfaces share a name
  (\<open>id\<close>, \<open>name\<close>, \<open>type\<close>, \<open>status\<close>, ...). A \<open>Record<string, unknown>\<close> is an
  association list whose values are strings. Numbers that hold tab identities are
  naturals, durations in milliseconds are integers.
\<close>

datatype StepType = Click | Input | Wait | Submit | CustomJs | UnknownType string

record SelectorInfo =
  css :: "string option"
  xpath :: "string option"
  textSnapshot :: "string option"
  attributes :: "(string \<times> string) list option"

record Step =
  step_id :: string
  step_name :: "string option"
  step_type :: StepType
  selector :: "SelectorInfo option"
  step_value :: "string option"
  step_waitMs :: "int option"
  step_urlPattern :: "string option"
  meta :: "(string \<times> string) list option"

record Task =
  task_id :: string
  task_name :: string
  task_description :: "string option"
  task_steps :: "Step list"
  task_createdAt :: string
  task_updatedAt :: string
  tags :: "string list option"

record Flow =
  flow_id :: string
  flow_name :: string
  flow_description :: "string option"
  taskIds :: "string list"
  autoRunUrlPatterns :: "string list option"
  flow_enabled :: bool
  flow_createdAt :: string
  flow_updatedAt :: string

datatype TriggerType = Manual | Url | Shortcut

record Trigger =
  trigger_id :: string
  trigger_type :: TriggerType
  trigger_flowId :: string
  trigger_urlPattern :: "string option"
  shortcutName :: "string option"
  trigger_enabled :: bool

datatype RunStatus = Success | Failed | Partial

datatype TriggeredBy = ByTrigger TriggerType | Direct

record StepRunLog =
  stepId :: string
  stepName :: "string option"
  stepStatus :: RunStatus
  stepStartedAt :: string
  stepFinishedAt :: string
  errorMessage :: "string option"

record FlowRunLog =
  log_id :: string
  flowId :: string
  flowName :: "string option"
  triggeredBy :: TriggeredBy
  startedAt :: string
  finishedAt :: string
  status :: RunStatus
  stepLogs :: "StepRunLog list"
  urlAtStart :: "string option"

record RecordingBuffer =
  buf_tabId :: nat
  sessionId :: string
  buf_steps :: "Step list"
  buf_startedAt :: string

datatype Role = User | Assistant

record ConversationState =
  conversationId :: string
  history :: "(Role \<times> string) list"
  conv_tabId :: nat
  isActive :: bool

record ImportExportPayload =
  version :: nat
  payload_tasks :: "Task list option"
  payload_flows :: "Flow list option"
  payload_triggers :: "Trigger list option"

datatype ImportMode = Merge | Replace

section \<open>The background world\<close>

text \<open>
  Everything the background service worker can observe or change is one record: the
  keys of \<open>chrome.storage.local\<close> that the handlers below read or write (the LLM
  settings are left out), the two module-level maps of
  \<open>background/index.ts\<close>, the history of the messages and timers the worker has issued
  (\<open>trace\<close>), and how often the clock and the random source have been read.

  The browser is an oracle: what a tab answers may depend on everything that was sent
  before, so each oracle takes the trace so far. \<open>Inl\<close> carries the message of
  \<open>chrome.runtime.lastError\<close> or of a rejected promise.

  Calls of \<open>chrome.storage.local\<close> are taken to succeed (\<open>lastError\<close> unset), and a
  handler runs without another handler's storage writes in between, except where a
  handler itself starts several writers at once (\<open>handleDeleteFlow\<close>).
\<close>

record StepResultMessage =
  res_stepId :: string
  success :: bool
  res_errorMessage :: "string option"

datatype TabMessage = StartRecordingMsg | StopRecordingMsg | GetPageDomInfoMsg | GetPageContentMsg

datatype event =
    TabsQuery
  | TabsGet nat
  | ExecuteStep nat Step
  | TabNotify nat TabMessage
  | Timeout int
  | LlmCall string

record World =
  tasks :: "Task list"
  flows :: "Flow list"
  logs :: "FlowRunLog list"
  triggers :: "Trigger list"
  storedRecordingBuffers :: "RecordingBuffer list"
  storedConversationStates :: "ConversationState list"
  recordingBuffers :: "(nat \<times> RecordingBuffer) list"
  conversationStates :: "(string \<times> ConversationState) list"
  trace :: "event list"
  clockReads :: nat
  randomReads :: nat

record Env =
  clock :: "nat \<Rightarrow> string"
  uuid :: "nat \<Rightarrow> string"
  tabsQuery :: "event list \<Rightarrow> string + nat option"
  tabsSendStep :: "event list \<Rightarrow> nat \<Rightarrow> Step \<Rightarrow> string + StepResultMessage"

subsection \<open>shared/utils.ts\<close>

definition nowIso :: "('e) Env_scheme \<Rightarrow> World \<Rightarrow> string \<times> World" where
  "nowIso env w = (clock env (clockReads w), w\<lparr>clockReads := Suc (clockReads w)\<rparr>)"

definition randomId :: "('e) Env_scheme \<Rightarrow> string \<Rightarrow> World \<Rightarrow> string \<times> World" where
  "randomId env prefix w =
     (prefix @ ''-'' @ uuid env (randomReads w), w\<lparr>randomReads := Suc (randomReads w)\<rparr>)"

section \<open>background/storage.ts\<close>

text \<open>
  \<open>Array.prototype.findIndex\<close>: the index of the first element that satisfies the
  predicate, \<open>None\<close> for the \<open>-1\<close> of the source.
\<close>

fun findIndex :: "('a \<Rightarrow> bool) \<Rightarrow> 'a list \<Rightarrow> nat option" where
  "findIndex P [] = None"
| "findIndex P (x # xs) =
     (if P x then Some 0 else (case findIndex P xs of None \<Rightarrow> None | Some i \<Rightarrow> Some (Suc i)))"

text \<open>
  The body shared by \<open>saveTask\<close>, \<open>saveFlow\<close>, \<open>upsertLog\<close>, \<open>saveTrigger\<close>,
  \<open>saveConversationState\<close> and \<open>upsertRecordingBuffer\<close>: replace the first item
  with the same key, or push.
\<close>

definition upsert :: "('a \<Rightarrow> 'k) \<Rightarrow> 'a \<Rightarrow> 'a list \<Rightarrow> 'a list" where
  "upsert key x xs =
     (case findIndex (\<lambda>y. key y = key x) xs of
        Some idx \<Rightarrow> xs[idx := x]
      | None \<Rightarrow> xs @ [x])"

definition saveTask :: "Task \<Rightarrow> World \<Rightarrow> World" where
  "saveTask task w = w\<lparr>tasks := upsert task_id task (tasks w)\<rparr>"

definition deleteTask :: "string \<Rightarrow> World \<Rightarrow> World" where
  "deleteTask taskId w = w\<lparr>tasks := filter (\<lambda>t. task_id t \<noteq> taskId) (tasks w)\<rparr>"

definition saveFlow :: "Flow \<Rightarrow> World \<Rightarrow> World" where
  "saveFlow flow w = w\<lparr>flows := upsert flow_id flow (flows w)\<rparr>"

definition deleteFlow :: "string \<Rightarrow> World \<Rightarrow> World" where
  "deleteFlow fid w = w\<lparr>flows := filter (\<lambda>f. flow_id f \<noteq> fid) (flows w)\<rparr>"

definition upsertLog :: "FlowRunLog \<Rightarrow> World \<Rightarrow> World" where
  "upsertLog log w = w\<lparr>logs := upsert log_id log (logs w)\<rparr>"

definition saveTrigger :: "Trigger \<Rightarrow> World \<Rightarrow> World" where
  "saveTrigger trigger w = w\<lparr>triggers := upsert trigger_id trigger (triggers w)\<rparr>"

text \<open>
  \<open>deleteTrigger\<close> has two awaits: it reads the list, then writes the filtered list.
  The two halves are separate definitions, because \<open>handleDeleteFlow\<close> starts several
  \<open>deleteTrigger\<close> calls before any of them has written.
\<close>

definition deleteTrigger_read :: "World \<Rightarrow> Trigger list" where
  "deleteTrigger_read w = triggers w"

definition deleteTrigger_write :: "string \<Rightarrow> Trigger list \<Rightarrow> World \<Rightarrow> World" where
  "deleteTrigger_write triggerId snapshot w =
     w\<lparr>triggers := filter (\<lambda>t. trigger_id t \<noteq> triggerId) snapshot\<rparr>"

definition deleteTrigger :: "string \<Rightarrow> World \<Rightarrow> World" where
  "deleteTrigger triggerId w = deleteTrigger_write triggerId (deleteTrigger_read w) w"

definition getRecordingBuffer :: "nat \<Rightarrow> World \<Rightarrow> RecordingBuffer option" where
  "getRecordingBuffer tabId w = find (\<lambda>b. buf_tabId b = tabId) (storedRecordingBuffers w)"

definition upsertRecordingBuffer :: "RecordingBuffer \<Rightarrow> World \<Rightarrow> World" where
  "upsertRecordingBuffer buffer w =
     w\<lparr>storedRecordingBuffers := upsert buf_tabId buffer (storedRecordingBuffers w)\<rparr>"

definition removeRecordingBuffer :: "nat \<Rightarrow> World \<Rightarrow> World" where
  "removeRecordingBuffer tabId w =
     w\<lparr>storedRecordingBuffers := filter (\<lambda>b. buf_tabId b \<noteq> tabId) (storedRecordingBuffers w)\<rparr>"

definition saveConversationState :: "ConversationState \<Rightarrow> World \<Rightarrow> World" where
  "saveConversationState state w =
     w\<lparr>storedConversationStates := upsert conversationId state (storedConversationStates w)\<rparr>"

text \<open>
  A JavaScript \<open>Map\<close> keeps its keys in insertion order, and \<open>set\<close> on a key that is
  present replaces the value where it stands. \<open>mapSet\<close> is \<open>Map.prototype.set\<close> on
  the list of entries, \<open>mapGet\<close> is \<open>get\<close>, \<open>mapDelete\<close> is \<open>delete\<close>, and
  \<open>newMap\<close> is the constructor applied to a list of pairs.
\<close>

fun mapSet :: "'k \<Rightarrow> 'v \<Rightarrow> ('k \<times> 'v) list \<Rightarrow> ('k \<times> 'v) list" where
  "mapSet k v [] = [(k, v)]"
| "mapSet k v ((k', v') # m) = (if k' = k then (k, v) # m else (k', v') # mapSet k v m)"

definition mapGet :: "'k \<Rightarrow> ('k \<times> 'v) list \<Rightarrow> 'v option" where
  "mapGet k m = map_of m k"

definition mapDelete :: "'k \<Rightarrow> ('k \<times> 'v) list \<Rightarrow> ('k \<times> 'v) list" where
  "mapDelete k m = filter (\<lambda>kv. fst kv \<noteq> k) m"

definition newMap :: "('k \<times> 'v) list \<Rightarrow> ('k \<times> 'v) list" where
  "newMap entries = fold (\<lambda>kv m. mapSet (fst kv) (snd kv) m) entries []"

definition mergeById :: "('a \<Rightarrow> string) \<Rightarrow> 'a list \<Rightarrow> 'a list \<Rightarrow> 'a list" where
  "mergeById ident base incoming =
     map snd (fold (\<lambda>item m. mapSet (ident item) item m) incoming
                   (newMap (map (\<lambda>item. (ident item, item)) base)))"

definition orEmpty :: "'a list option \<Rightarrow> 'a list" where
  "orEmpty xs = (case xs of None \<Rightarrow> [] | Some ys \<Rightarrow> ys)"

definition importData :: "ImportExportPayload \<Rightarrow> ImportMode \<Rightarrow> World \<Rightarrow> World" where
  "importData payload mode w =
     (if mode = Replace then
        w\<lparr>tasks := orEmpty (payload_tasks payload),
          flows := orEmpty (payload_flows payload),
          triggers := orEmpty (payload_triggers payload)\<rparr>
      else
        w\<lparr>tasks := mergeById task_id (tasks w) (orEmpty (payload_tasks payload)),
          flows := mergeById flow_id (flows w) (orEmpty (payload_flows payload)),
          triggers := mergeById trigger_id (triggers w) (orEmpty (payload_triggers payload))\<rparr>)"

text \<open>
  The item a \<open>Map\<close> built from a list holds under a key: the last item of the list
  with that key.
\<close>

definition lookupLast :: "('a \<Rightarrow> string) \<Rightarrow> string \<Rightarrow> 'a list \<Rightarrow> 'a option" where
  "lookupLast ident k xs = find (\<lambda>x. ident x = k) (rev xs)"

section \<open>background/logger.ts\<close>

datatype error = Error string

definition createFlowLog ::
  "('e) Env_scheme \<Rightarrow> Flow \<Rightarrow> TriggeredBy \<Rightarrow> string option \<Rightarrow> World \<Rightarrow> FlowRunLog \<times> World" where
  "createFlowLog env flow trig url w =
     (let (i, w1) = randomId env ''log'' w;
          (t1, w2) = nowIso env w1;
          (t2, w3) = nowIso env w2
      in (\<lparr>log_id = i, flowId = flow_id flow, flowName = Some (flow_name flow),
           triggeredBy = trig, startedAt = t1, finishedAt = t2, status = Partial,
           stepLogs = [], urlAtStart = url\<rparr>, w3))"

text \<open>
  \<open>addStepLog\<close> and \<open>finalizeFlowLog\<close> change the log object they are given and
  store it; the model returns the changed log with the new world.
\<close>

definition addStepLog ::
  "('e) Env_scheme \<Rightarrow> FlowRunLog \<Rightarrow> Step \<Rightarrow> RunStatus \<Rightarrow> string option \<Rightarrow> World
     \<Rightarrow> FlowRunLog \<times> World" where
  "addStepLog env flowLog step st err w =
     (let (now, w1) = nowIso env w;
          stepLog = \<lparr>stepId = step_id step, stepName = step_name step, stepStatus = st,
                     stepStartedAt = now, stepFinishedAt = now, errorMessage = err\<rparr>;
          flowLog' = flowLog\<lparr>stepLogs := stepLogs flowLog @ [stepLog]\<rparr>
      in (flowLog', upsertLog flowLog' w1))"

definition finalizeFlowLog ::
  "('e) Env_scheme \<Rightarrow> FlowRunLog \<Rightarrow> RunStatus \<Rightarrow> World \<Rightarrow> FlowRunLog \<times> World" where
  "finalizeFlowLog env flowLog st w =
     (let (now, w1) = nowIso env w;
          flowLog' = flowLog\<lparr>status := st, finishedAt := now\<rparr>
      in (flowLog', upsertLog flowLog' w1))"

section \<open>background/runner.ts\<close>

definition sendStepToTab ::
  "('e) Env_scheme \<Rightarrow> nat \<Rightarrow> Step \<Rightarrow> World \<Rightarrow> (error + StepResultMessage) \<times> World" where
  "sendStepToTab env tabId step w =
     ((case tabsSendStep env (trace w) tabId step of
         Inl m \<Rightarrow> Inl (Error m)
       | Inr response \<Rightarrow> Inr response),
      w\<lparr>trace := trace w @ [ExecuteStep tabId step]\<rparr>)"

definition flattenSteps :: "Flow \<Rightarrow> (string \<times> Step list) list \<Rightarrow> Step list" where
  "flattenSteps flow tasksMap =
     fold (\<lambda>taskId steps.
             steps @ (case mapGet taskId tasksMap of None \<Rightarrow> [] | Some taskSteps \<Rightarrow> taskSteps))
          (taskIds flow) []"

text \<open>
  The query for the active tab, written out in \<open>runFlow\<close> and again as
  \<open>getActiveTabId\<close> in \<open>background/index.ts\<close>. The oracle answers with
  \<open>tabs[0]?.id\<close>; an id that is missing or \<open>0\<close> is falsy.
\<close>

definition getActiveTabId :: "('e) Env_scheme \<Rightarrow> World \<Rightarrow> (error + nat) \<times> World" where
  "getActiveTabId env w =
     ((case tabsQuery env (trace w) of
         Inl m \<Rightarrow> Inl (Error m)
       | Inr None \<Rightarrow> Inl (Error ''No active tab found'')
       | Inr (Some tabId) \<Rightarrow>
           if tabId = 0 then Inl (Error ''No active tab found'') else Inr tabId),
      w\<lparr>trace := trace w @ [TabsQuery]\<rparr>)"

text \<open>
  The \<open>for\<close> loop of \<open>runFlow\<close>. The first component of the result says whether the
  loop ran to its end (\<open>True\<close>) or left \<open>runFlow\<close> through one of its two \<open>return\<close>s.
\<close>

fun runFlow_loop ::
  "('e) Env_scheme \<Rightarrow> nat \<Rightarrow> Step list \<Rightarrow> FlowRunLog \<Rightarrow> World \<Rightarrow> bool \<times> FlowRunLog \<times> World" where
  "runFlow_loop env tabId [] flowLog w = (True, flowLog, w)"
| "runFlow_loop env tabId (step # rest) flowLog w =
     (case sendStepToTab env tabId step w of
        (Inr result, w1) \<Rightarrow>
          if success result then
            (let (l, w2) = addStepLog env flowLog step Success None w1
             in runFlow_loop env tabId rest l w2)
          else
            (let (l, w2) = addStepLog env flowLog step Failed (res_errorMessage result) w1;
                 (l', w3) = finalizeFlowLog env l Failed w2
             in (False, l', w3))
      | (Inl (Error m), w1) \<Rightarrow>
          (let (l, w2) = addStepLog env flowLog step Failed (Some m) w1;
               (l', w3) = finalizeFlowLog env l Failed w2
           in (False, l', w3)))"

definition runFlow ::
  "('e) Env_scheme \<Rightarrow> string \<Rightarrow> nat option \<Rightarrow> TriggeredBy \<Rightarrow> World \<Rightarrow> (error + unit) \<times> World" where
  "runFlow env fid explicitTabId trig w =
     (case find (\<lambda>f. flow_id f = fid) (flows w) of
        None \<Rightarrow> (Inl (Error ''Flow not found''), w)
      | Some flow \<Rightarrow>
          (let tasksMap = newMap (map (\<lambda>t. (task_id t, task_steps t)) (tasks w));
               steps = flattenSteps flow tasksMap
           in case (case explicitTabId of
                      Some tabId \<Rightarrow> (Inr tabId, w)
                    | None \<Rightarrow> getActiveTabId env w) of
                (Inl e, w1) \<Rightarrow> (Inl e, w1)
              | (Inr tabId, w1) \<Rightarrow>
                  (let (flowLog, w2) = createFlowLog env flow trig None w1
                   in case runFlow_loop env tabId steps flowLog w2 of
                        (False, l, w3) \<Rightarrow> (Inr (), w3)
                      | (True, l, w3) \<Rightarrow> (Inr (), snd (finalizeFlowLog env l Success w3)))))"

section \<open>background/index.ts: recording and deleting\<close>

datatype BackgroundResponse =
    RespOk
  | RespState bool
  | RespError string
  | RespSaved "Task option"
  | RespLlmConversation string string "Step list option" "string option"

definition ensureRecordingBuffer :: "nat \<Rightarrow> World \<Rightarrow> (error + RecordingBuffer) \<times> World" where
  "ensureRecordingBuffer tabId w =
     (case mapGet tabId (recordingBuffers w) of
        Some cached \<Rightarrow> (Inr cached, w)
      | None \<Rightarrow>
          (case getRecordingBuffer tabId w of
             Some stored \<Rightarrow>
               (Inr stored, w\<lparr>recordingBuffers := mapSet tabId stored (recordingBuffers w)\<rparr>)
           | None \<Rightarrow> (Inl (Error ''Recording is not active''), w)))"

definition handleStartRecording ::
  "('e) Env_scheme \<Rightarrow> World \<Rightarrow> (error + BackgroundResponse) \<times> World" where
  "handleStartRecording env w =
     (case getActiveTabId env w of
        (Inl e, w1) \<Rightarrow> (Inl e, w1)
      | (Inr tabId, w1) \<Rightarrow>
          (let (sid, w2) = randomId env ''rec'' w1;
               (now, w3) = nowIso env w2;
               buffer = \<lparr>buf_tabId = tabId, sessionId = sid, buf_steps = [],
                         buf_startedAt = now\<rparr>;
               w4 = w3\<lparr>recordingBuffers := mapSet tabId buffer (recordingBuffers w3)\<rparr>;
               w5 = upsertRecordingBuffer buffer w4;
               w6 = w5\<lparr>trace := trace w5 @ [TabNotify tabId StartRecordingMsg]\<rparr>
           in (Inr (RespState True), w6)))"

definition handleRecordStep ::
  "Step \<Rightarrow> nat option \<Rightarrow> World \<Rightarrow> (error + BackgroundResponse) \<times> World" where
  "handleRecordStep step senderTab w =
     (case senderTab of
        None \<Rightarrow> (Inr (RespError ''Tab not found for recording''), w)
      | Some tabId \<Rightarrow>
          (case (case mapGet tabId (recordingBuffers w) of
                   Some buffer \<Rightarrow> (Inr buffer, w)
                 | None \<Rightarrow> ensureRecordingBuffer tabId w) of
             (Inl e, w1) \<Rightarrow> (Inl e, w1)
           | (Inr resolvedBuffer, w1) \<Rightarrow>
               (let pushed = resolvedBuffer\<lparr>buf_steps := buf_steps resolvedBuffer @ [step]\<rparr>;
                    w2 = w1\<lparr>recordingBuffers := mapSet tabId pushed (recordingBuffers w1)\<rparr>
                in (Inr RespOk, upsertRecordingBuffer pushed w2))))"

text \<open>
  \<open>handleDeleteFlow\<close> awaits \<open>deleteFlow\<close>, reads the triggers, and then calls
  \<open>deleteTrigger\<close> once per orphan id inside \<open>Promise.all(ids.map(...))\<close>. \<open>map\<close> runs
  every call up to its first \<open>await\<close> before any call continues: each call has issued
  its \<open>chrome.storage.local.get\<close> before the first \<open>set\<close> is issued, so every call
  reads the same list. The calls then continue in the order they were started, and
  each writes its own filtered copy of that list.
\<close>

definition promiseAll_deleteTrigger :: "string list \<Rightarrow> World \<Rightarrow> World" where
  "promiseAll_deleteTrigger ids w =
     fold (\<lambda>(triggerId, snapshot) s. deleteTrigger_write triggerId snapshot s)
          (map (\<lambda>triggerId. (triggerId, deleteTrigger_read w)) ids) w"

definition handleDeleteFlow :: "string \<Rightarrow> World \<Rightarrow> (error + BackgroundResponse) \<times> World" where
  "handleDeleteFlow fid w =
     (let w1 = deleteFlow fid w;
          orphanTriggerIds = map trigger_id (filter (\<lambda>t. trigger_flowId t = fid) (triggers w1))
      in (Inr RespOk, promiseAll_deleteTrigger orphanTriggerIds w1))"

definition handleDeleteTrigger :: "string \<Rightarrow> World \<Rightarrow> (error + BackgroundResponse) \<times> World" where
  "handleDeleteTrigger triggerId w = (Inr RespOk, deleteTrigger triggerId w)"

section \<open>content/executor.ts\<close>

text \<open>
  The content script sees the page through the DOM. An element is a handle (a natural
  number). What the page answers may change while the script sleeps or acts, so the
  page is an oracle over the history of what the script has done to it: each query of
  the DOM takes the events so far. \<open>Inl\<close> is a thrown exception with its message.
\<close>

datatype pageEvent =
    Sleep int
  | QuerySelector string
  | Evaluate string
  | ClickEl nat
  | FocusEl nat
  | SetValue nat string
  | DispatchEvent nat string
  | RequestSubmit nat
  | RunScript string

record Page =
  querySelector :: "pageEvent list \<Rightarrow> string \<Rightarrow> string + nat option"
  evaluateXPath :: "pageEvent list \<Rightarrow> string \<Rightarrow> string + nat option"
  isForm :: "pageEvent list \<Rightarrow> nat \<Rightarrow> bool"
  domThrows :: "pageEvent list \<Rightarrow> pageEvent \<Rightarrow> string option"

definition findByCss :: "('p) Page_scheme \<Rightarrow> string \<Rightarrow> pageEvent list \<Rightarrow> nat option \<times> pageEvent list" where
  "findByCss page sel h =
     ((case querySelector page h sel of Inl m \<Rightarrow> None | Inr el \<Rightarrow> el),
      h @ [QuerySelector sel])"

definition findByXPath ::
  "('p) Page_scheme \<Rightarrow> string option \<Rightarrow> pageEvent list \<Rightarrow> nat option \<times> pageEvent list" where
  "findByXPath page xp h =
     (case xp of
        None \<Rightarrow> (None, h)
      | Some x \<Rightarrow>
          if x = [] then (None, h)
          else ((case evaluateXPath page h x of Inl m \<Rightarrow> None | Inr el \<Rightarrow> el),
                h @ [Evaluate x]))"

text \<open>A string is truthy when it is present and not empty.\<close>

definition truthy :: "string option \<Rightarrow> bool" where
  "truthy s = (case s of None \<Rightarrow> False | Some t \<Rightarrow> t \<noteq> [])"

definition resolveElement ::
  "('p) Page_scheme \<Rightarrow> SelectorInfo option \<Rightarrow> pageEvent list \<Rightarrow> nat option \<times> pageEvent list" where
  "resolveElement page sel h =
     (case sel of
        None \<Rightarrow> (None, h)
      | Some s \<Rightarrow>
          if truthy (css s) then findByCss page (the (css s)) h
          else findByXPath page (xpath s) h)"

definition waitMs :: "int \<Rightarrow> pageEvent list \<Rightarrow> pageEvent list" where
  "waitMs ms h = h @ [Sleep ms]"

text \<open>The \<open>for\<close> loop of \<open>waitForElement\<close>, from the counter \<open>i\<close> on.\<close>

function waitForElement_loop ::
  "('p) Page_scheme \<Rightarrow> SelectorInfo option \<Rightarrow> nat \<Rightarrow> int \<Rightarrow> nat \<Rightarrow> pageEvent list
     \<Rightarrow> nat option \<times> pageEvent list" where
  "waitForElement_loop page sel attempts intervalMs i h =
     (if i < attempts then
        (case resolveElement page sel h of
           (Some el, h1) \<Rightarrow> (Some el, h1)
         | (None, h1) \<Rightarrow>
             waitForElement_loop page sel attempts intervalMs (Suc i)
               (if i + 1 < attempts then waitMs intervalMs h1 else h1))
      else (None, h))"
  by pat_completeness auto
termination
  by (relation "measure (\<lambda>(page, sel, attempts, intervalMs, i, h). attempts - i)") auto

declare waitForElement_loop.simps [simp del]

definition waitForElement ::
  "('p) Page_scheme \<Rightarrow> SelectorInfo option \<Rightarrow> nat \<Rightarrow> int \<Rightarrow> pageEvent list
     \<Rightarrow> nat option \<times> pageEvent list" where
  "waitForElement page sel attempts intervalMs h =
     (case sel of
        None \<Rightarrow> (None, h)
      | Some s \<Rightarrow> waitForElement_loop page sel attempts intervalMs 0 h)"

text \<open>
  A call of a DOM method on an element, and a sequence of such calls: the first one that
  throws ends the sequence.
\<close>

definition domCall :: "('p) Page_scheme \<Rightarrow> pageEvent \<Rightarrow> pageEvent list \<Rightarrow> (error + unit) \<times> pageEvent list" where
  "domCall page ev h =
     ((case domThrows page h ev of Some m \<Rightarrow> Inl (Error m) | None \<Rightarrow> Inr ()), h @ [ev])"

fun domCalls :: "('p) Page_scheme \<Rightarrow> pageEvent list \<Rightarrow> pageEvent list \<Rightarrow> (error + unit) \<times> pageEvent list" where
  "domCalls page [] h = (Inr (), h)"
| "domCalls page (ev # evs) h =
     (case domCall page ev h of
        (Inl e, h1) \<Rightarrow> (Inl e, h1)
      | (Inr u, h1) \<Rightarrow> domCalls page evs h1)"

text \<open>\<open>step.selector?.css || step.selector?.xpath || "unknown"\<close>\<close>

definition selectorStr :: "Step \<Rightarrow> string" where
  "selectorStr step =
     (case selector step of
        None \<Rightarrow> ''unknown''
      | Some s \<Rightarrow>
          if truthy (css s) then the (css s)
          else if truthy (xpath s) then the (xpath s)
          else ''unknown'')"

definition runStep :: "('p) Page_scheme \<Rightarrow> Step \<Rightarrow> pageEvent list \<Rightarrow> (error + unit) \<times> pageEvent list" where
  "runStep page step h =
     (let h0 = (case step_waitMs step of
                  None \<Rightarrow> h
                | Some ms \<Rightarrow> if ms \<noteq> 0 \<and> ms > 0 then waitMs ms h else h)
      in case step_type step of
           Wait \<Rightarrow>
             (Inr (), waitMs (case step_waitMs step of None \<Rightarrow> 500 | Some ms \<Rightarrow> ms) h0)
         | Click \<Rightarrow>
             (case waitForElement page (selector step) 5 500 h0 of
                (None, h1) \<Rightarrow>
                  (Inl (Error (''Element not found for click. Selector: '' @ selectorStr step)), h1)
              | (Some el, h1) \<Rightarrow> domCalls page [ClickEl el] h1)
         | Input \<Rightarrow>
             (case waitForElement page (selector step) 5 500 h0 of
                (None, h1) \<Rightarrow>
                  (Inl (Error (''Element not found for input. Selector: '' @ selectorStr step)), h1)
              | (Some el, h1) \<Rightarrow>
                  domCalls page
                    [FocusEl el,
                     SetValue el (case step_value step of None \<Rightarrow> [] | Some v \<Rightarrow> v),
                     DispatchEvent el ''input'',
                     DispatchEvent el ''change''] h1)
         | Submit \<Rightarrow>
             (case waitForElement page (selector step) 5 500 h0 of
                (None, h1) \<Rightarrow> (Inl (Error ''Element not found for submit''), h1)
              | (Some el, h1) \<Rightarrow>
                  if isForm page h1 el then domCalls page [RequestSubmit el] h1
                  else domCalls page [DispatchEvent el ''submit''] h1)
         | CustomJs \<Rightarrow>
             (case (case meta step of None \<Rightarrow> None | Some m \<Rightarrow> map_of m ''script'') of
                None \<Rightarrow> (Inl (Error ''No custom script provided''), h0)
              | Some script \<Rightarrow>
                  if script = [] then (Inl (Error ''No custom script provided''), h0)
                  else domCalls page [RunScript script] h0)
         | UnknownType t \<Rightarrow> (Inl (Error (''Unsupported step type: '' @ t)), h0))"

text \<open>
  The listener for \<open>ExecuteStep\<close> messages: it runs the step and answers with a
  \<open>StepResultMessage\<close>; an exception of \<open>runStep\<close> becomes a failure result.
\<close>

definition executeStepListener ::
  "('p) Page_scheme \<Rightarrow> Step \<Rightarrow> pageEvent list \<Rightarrow> StepResultMessage \<times> pageEvent list" where
  "executeStepListener page step h =
     (case runStep page step h of
        (Inr u, h1) \<Rightarrow>
          (\<lparr>res_stepId = step_id step, success = True, res_errorMessage = None\<rparr>, h1)
      | (Inl (Error m), h1) \<Rightarrow>
          (\<lparr>res_stepId = step_id step, success = False, res_errorMessage = Some m\<rparr>, h1))"

text \<open>
  The locator claim in the spec's words: the primary CSS selector is tried first, and
  the XPath is the fallback whenever the primary selector resolves no element.
\<close>

definition spec_resolveElement ::
  "('p) Page_scheme \<Rightarrow> SelectorInfo option \<Rightarrow> pageEvent list \<Rightarrow> nat option \<times> pageEvent list" where
  "spec_resolveElement page sel h =
     (case sel of
        None \<Rightarrow> (None, h)
      | Some s \<Rightarrow>
          if truthy (css s) then
            (case findByCss page (the (css s)) h of
               (Some el, h1) \<Rightarrow> (Some el, h1)
             | (None, h1) \<Rightarrow> findByXPath page (xpath s) h1)
          else findByXPath page (xpath s) h)"

definition xpathQueries :: "pageEvent list \<Rightarrow> string list" where
  "xpathQueries h = concat (map (\<lambda>e. case e of Evaluate x \<Rightarrow> [x] | _ \<Rightarrow> []) h)"


text \<open>
  Observations on a step with a CSS selector \<open>c\<close>. \<open>afterDelay\<close> is the history once the
  delay before the step is over; \<open>attemptAt h c ms i\<close> is the history at which attempt
  \<open>i\<close> (from 0) of \<open>waitForElement\<close> queries \<open>c\<close> when it started at \<open>h\<close> and all
  attempts before found nothing; \<open>foundAt\<close> is what \<open>document.querySelector\<close> finds for
  \<open>c\<close> at a history, an invalid selector counting as nothing found.
\<close>

definition afterDelay :: "Step \<Rightarrow> pageEvent list \<Rightarrow> pageEvent list" where
  "afterDelay step h =
     (case step_waitMs step of
        None \<Rightarrow> h
      | Some ms \<Rightarrow> if 0 < ms then h @ [Sleep ms] else h)"

definition attemptAt :: "pageEvent list \<Rightarrow> string \<Rightarrow> int \<Rightarrow> nat \<Rightarrow> pageEvent list" where
  "attemptAt h c ms i = h @ concat (replicate i [QuerySelector c, Sleep ms])"

definition foundAt :: "('p) Page_scheme \<Rightarrow> pageEvent list \<Rightarrow> string \<Rightarrow> nat option" where
  "foundAt page h c = (case querySelector page h c of Inl m \<Rightarrow> None | Inr el \<Rightarrow> el)"


section \<open>content/selectors.ts\<close>

text \<open>
  The document is a tree of element and text nodes; \<open>tagName\<close> is stored as the DOM
  reports it. An element of the document is named by its path from the root element:
  the list of positions among the element children, from the root down. The root has the
  empty path and no parent element. \<open>CSS.escape\<close> is a parameter (\<open>esc\<close>).

  A string of the model is the list of the bytes of its UTF-8 encoding. What the browser
  computes over UTF-16 code units and Unicode character classes is not recomputed on
  bytes: \<open>s.trim().slice(0, 200)\<close>, which \<open>buildSelectorInfo\<close> applies to the text of
  the element, is a parameter (\<open>trimSlice\<close>). \<open>toLowerCase\<close> is applied by the code to
  tag names, where only the letters A to Z have another case, and to the user's message
  before a search for words that have no case; it is modelled on these letters.
\<close>

datatype node =
    Elem (tagName: string) (attrs: "(string \<times> string) list") (childNodes: "node list")
  | Text string

fun isElem :: "node \<Rightarrow> bool" where
  "isElem (Elem t a c) = True"
| "isElem (Text s) = False"

fun children :: "node \<Rightarrow> node list" where
  "children (Elem t a c) = filter isElem c"
| "children (Text s) = []"

fun nodeAt :: "node \<Rightarrow> nat list \<Rightarrow> node option" where
  "nodeAt n [] = (if isElem n then Some n else None)"
| "nodeAt n (i # p) = (if i < length (children n) then nodeAt (children n ! i) p else None)"

definition parentElement :: "nat list \<Rightarrow> nat list option" where
  "parentElement p = (if p = [] then None else Some (butlast p))"

definition getAttribute :: "node \<Rightarrow> string \<Rightarrow> string option" where
  "getAttribute el name = (case el of Elem t a c \<Rightarrow> map_of a name | Text s \<Rightarrow> None)"

fun textContent :: "node \<Rightarrow> string" where
  "textContent (Text s) = s"
| "textContent (Elem t a c) = concat (map textContent c)"

fun descendants :: "node \<Rightarrow> node list" where
  "descendants (Text s) = []"
| "descendants (Elem t a c) = Elem t a c # concat (map descendants c)"

definition lowerChar :: "char \<Rightarrow> char" where
  "lowerChar ch =
     (case map_of (zip ''ABCDEFGHIJKLMNOPQRSTUVWXYZ'' ''abcdefghijklmnopqrstuvwxyz'') ch of
        None \<Rightarrow> ch
      | Some l \<Rightarrow> l)"

definition toLowerCase :: "string \<Rightarrow> string" where
  "toLowerCase s = map lowerChar s"

text \<open>\<open>String.prototype.split\<close> on a one-character separator, and \<open>Array.prototype.join\<close>.\<close>

fun split :: "char \<Rightarrow> string \<Rightarrow> string list" where
  "split sep [] = [[]]"
| "split sep (ch # s) =
     (if ch = sep then [] # split sep s
      else (case split sep s of
              [] \<Rightarrow> [[ch]]
            | w # ws \<Rightarrow> (ch # w) # ws))"

fun join :: "string \<Rightarrow> string list \<Rightarrow> string" where
  "join sep [] = []"
| "join sep [x] = x"
| "join sep (x # y # ys) = x @ sep @ join sep (y # ys)"

function natToString :: "nat \<Rightarrow> string" where
  "natToString n =
     (if n < 10 then [''0123456789'' ! n]
      else natToString (n div 10) @ [''0123456789'' ! (n mod 10)])"
  by pat_completeness auto
termination
  by (relation "measure (\<lambda>n. n)") auto

declare natToString.simps [simp del]

definition dq :: string where
  "dq = [CHR 0x22]"

text \<open>
  The body of the document: the first child of the root element that is a \<open>body\<close> or a
  \<open>frameset\<close>.
\<close>

definition body :: "node \<Rightarrow> nat list option" where
  "body doc =
     (case findIndex (\<lambda>c. toLowerCase (tagName c) \<in> {''body'', ''frameset''}) (children doc) of
        None \<Rightarrow> None
      | Some i \<Rightarrow> Some [i])"

definition hasUniqueId :: "(string \<Rightarrow> string) \<Rightarrow> node \<Rightarrow> node \<Rightarrow> string option" where
  "hasUniqueId esc doc el =
     (case getAttribute el ''id'' of
        None \<Rightarrow> None
      | Some i \<Rightarrow>
          if i \<noteq> [] \<and> length (filter (\<lambda>e. getAttribute e ''id'' = Some i) (descendants doc)) = 1
          then Some (''#'' @ esc i)
          else None)"

definition dataTestId :: "node \<Rightarrow> string option" where
  "dataTestId el =
     (let testId = (if truthy (getAttribute el ''data-testid'') then getAttribute el ''data-testid''
                    else getAttribute el ''data-test'')
      in if truthy testId then Some (''[data-testid='' @ dq @ the testId @ dq @ '']'')
         else None)"

text \<open>
  One round of the loop of \<open>fallbackCss\<close>: the part it puts in front for the element at
  path \<open>p\<close>.
\<close>

definition fallbackCss_part :: "(string \<Rightarrow> string) \<Rightarrow> node \<Rightarrow> nat list \<Rightarrow> node \<Rightarrow> string" where
  "fallbackCss_part esc doc p current =
     (let tag = toLowerCase (tagName current);
          className =
            join [] (map (\<lambda>c. ''.'' @ esc c)
                         (filter (\<lambda>c. c \<noteq> [])
                            (split CHR '' ''
                               (case getAttribute current ''class'' of
                                  None \<Rightarrow> []
                                | Some v \<Rightarrow> v))));
          siblings = (case parentElement p of
                        None \<Rightarrow> []
                      | Some q \<Rightarrow> (case nodeAt doc q of None \<Rightarrow> [] | Some parent \<Rightarrow> children parent));
          index = (case parentElement p of None \<Rightarrow> 0 | Some q \<Rightarrow> last p + 1);
          nth = (if length siblings > 1 then '':nth-child('' @ natToString index @ '')'' else [])
      in tag @ className @ nth)"

function fallbackCss_loop ::
  "(string \<Rightarrow> string) \<Rightarrow> node \<Rightarrow> nat list option \<Rightarrow> string list \<Rightarrow> string list" where
  "fallbackCss_loop esc doc current parts =
     (case current of
        None \<Rightarrow> parts
      | Some p \<Rightarrow>
          (case nodeAt doc p of
             None \<Rightarrow> parts
           | Some el \<Rightarrow>
               if Some p \<noteq> body doc \<and> length parts < 5 then
                 fallbackCss_loop esc doc (parentElement p) (fallbackCss_part esc doc p el # parts)
               else parts))"
  by pat_completeness auto
termination
  by (relation "measure (\<lambda>(esc, doc, current, parts).
                   case current of None \<Rightarrow> 0 | Some p \<Rightarrow> Suc (length p))")
     (auto simp: parentElement_def split: if_splits)

declare fallbackCss_loop.simps [simp del]

definition fallbackCss :: "(string \<Rightarrow> string) \<Rightarrow> node \<Rightarrow> nat list \<Rightarrow> string" where
  "fallbackCss esc doc p = join '' > '' (fallbackCss_loop esc doc (Some p) [])"

text \<open>
  The position of the element among the children of its parent that have its tag name,
  counted from 1, as \<open>buildXPath\<close> computes it.
\<close>

definition sameTagIndex :: "node \<Rightarrow> nat list \<Rightarrow> node \<Rightarrow> nat" where
  "sameTagIndex doc p current =
     (case parentElement p of
        None \<Rightarrow> 1
      | Some q \<Rightarrow>
          (case nodeAt doc q of
             None \<Rightarrow> 1
           | Some parent \<Rightarrow>
               length (filter (\<lambda>c. tagName c = tagName current) (take (last p) (children parent)))
                 + 1))"

function buildXPath_loop :: "node \<Rightarrow> nat list option \<Rightarrow> string list \<Rightarrow> string list" where
  "buildXPath_loop doc current segments =
     (case current of
        None \<Rightarrow> segments
      | Some p \<Rightarrow>
          (case nodeAt doc p of
             None \<Rightarrow> segments
           | Some el \<Rightarrow>
               buildXPath_loop doc (parentElement p)
                 ((toLowerCase (tagName el) @ ''['' @ natToString (sameTagIndex doc p el) @ '']'')
                  # segments)))"
  by pat_completeness auto
termination
  by (relation "measure (\<lambda>(doc, current, segments).
                   case current of None \<Rightarrow> 0 | Some p \<Rightarrow> Suc (length p))")
     (auto simp: parentElement_def split: if_splits)

declare buildXPath_loop.simps [simp del]

definition buildXPath :: "node \<Rightarrow> nat list \<Rightarrow> string" where
  "buildXPath doc p =
     (if Some p = body doc then ''/html/body''
      else ''/'' @ join ''/'' (buildXPath_loop doc (Some p) []))"

text \<open>
  \<open>buildSelectorInfo\<close> for the element at path \<open>p\<close>; the element is in the document.
  \<open>a || b\<close> takes \<open>b\<close> when \<open>a\<close> is \<open>null\<close> or the empty string. \<open>trimSlice\<close> stands for
  \<open>s.trim().slice(0, 200)\<close> of the browser.
\<close>

definition buildSelectorInfo ::
  "(string \<Rightarrow> string) \<Rightarrow> (string \<Rightarrow> string) \<Rightarrow> node \<Rightarrow> nat list \<Rightarrow> SelectorInfo option" where
  "buildSelectorInfo esc trimSlice doc p =
     (case nodeAt doc p of
        None \<Rightarrow> None
      | Some el \<Rightarrow>
          Some \<lparr>css = Some (if truthy (hasUniqueId esc doc el) then the (hasUniqueId esc doc el)
                            else if truthy (dataTestId el) then the (dataTestId el)
                            else fallbackCss esc doc p),
                xpath = Some (buildXPath doc p),
                textSnapshot = Some (trimSlice (textContent el)),
                attributes = Some (newMap (filter (\<lambda>a. take 5 (fst a) = ''data-'') (attrs el)))\<rparr>)"

text \<open>
  The structural fallback in the spec's words: at most five levels below the body, and
  at each level the tag name, at most two class-name fragments, and a positional index
  only when the element has a sibling with the same tag, joined with the descendant
  combinator.
\<close>

definition spec_fallbackCss_part :: "(string \<Rightarrow> string) \<Rightarrow> node \<Rightarrow> nat list \<Rightarrow> node \<Rightarrow> string" where
  "spec_fallbackCss_part esc doc p current =
     (let tag = toLowerCase (tagName current);
          className =
            join [] (map (\<lambda>c. ''.'' @ esc c)
                         (take 2 (filter (\<lambda>c. c \<noteq> [])
                            (split CHR '' ''
                               (case getAttribute current ''class'' of
                                  None \<Rightarrow> []
                                | Some v \<Rightarrow> v)))));
          siblings = (case parentElement p of
                        None \<Rightarrow> []
                      | Some q \<Rightarrow> (case nodeAt doc q of None \<Rightarrow> [] | Some parent \<Rightarrow> children parent));
          index = (case parentElement p of None \<Rightarrow> 0 | Some q \<Rightarrow> last p + 1);
          nth = (if length (filter (\<lambda>c. tagName c = tagName current) siblings) > 1
                 then '':nth-child('' @ natToString index @ '')'' else [])
      in tag @ className @ nth)"

text \<open>
  The elements the loop of \<open>fallbackCss\<close> visits, outermost first: the element and its
  ancestors, nearest first, up to but without the body, at most five of them.
\<close>

fun chain :: "nat list \<Rightarrow> nat list list" where
  "chain [] = [[]]"
| "chain (i # p) = (let c = chain p in map (\<lambda>q. i # q) c @ [[]])"

definition levels :: "node \<Rightarrow> nat list \<Rightarrow> nat list list" where
  "levels doc p = rev (take 5 (takeWhile (\<lambda>q. Some q \<noteq> body doc) (chain p)))"

definition spec_fallbackCss :: "(string \<Rightarrow> string) \<Rightarrow> node \<Rightarrow> nat list \<Rightarrow> string" where
  "spec_fallbackCss esc doc p =
     join '' '' (map (\<lambda>q. spec_fallbackCss_part esc doc q (the (nodeAt doc q))) (levels doc p))"

section \<open>background/index.ts: the conversational execution loop\<close>

text \<open>
  \<open>handleRunLlmConversation\<close> talks to the tab and to the LLM client. Both are oracles
  over the trace, like the tab of the Flow Runner. \<open>runConversation\<close> (llmClient.ts) is
  taken as a whole: it answers with the reply text and, when it could extract one, an
  action. The text of the report prompt is a parameter (\<open>reportPrompt\<close>): it builds the
  prompt from the user's message, the page's URL and title and the content of the page,
  of which it keeps \<open>content.slice(0, 5000)\<close>. The DOM summary of the page is an opaque
  string.
\<close>

record TabInfo =
  tab_url :: "string option"
  tab_status :: "string option"

datatype TabResponse =
    PageDomInfo "string option"
  | PageContent "(string \<times> string \<times> string) option"
  | OtherResponse

datatype LlmAction = ExecuteAction "Step list" | ReportAction string

record ConversationResult =
  conv_response :: string
  conv_action :: "LlmAction option"

record LlmEnv = Env +
  tabsGet :: "event list \<Rightarrow> nat \<Rightarrow> string + TabInfo"
  tabsSendMessage :: "event list \<Rightarrow> nat \<Rightarrow> TabMessage \<Rightarrow> string + TabResponse"
  runConversation ::
    "event list \<Rightarrow> string \<Rightarrow> (Role \<times> string) list \<Rightarrow> string \<Rightarrow> string option
       \<Rightarrow> string + ConversationResult"
  reportPrompt :: "string \<Rightarrow> string \<Rightarrow> string \<Rightarrow> string \<Rightarrow> string"

record RunLlmConversationMessage =
  msg_message :: string
  msg_conversationId :: "string option"
  msg_history :: "(Role \<times> string) list option"

definition tabsGet_call ::
  "('e) LlmEnv_scheme \<Rightarrow> nat \<Rightarrow> World \<Rightarrow> (error + TabInfo) \<times> World" where
  "tabsGet_call env tabId w =
     ((case tabsGet env (trace w) tabId of Inl m \<Rightarrow> Inl (Error m) | Inr tab \<Rightarrow> Inr tab),
      w\<lparr>trace := trace w @ [TabsGet tabId]\<rparr>)"

definition tabsSendMessage_call ::
  "('e) LlmEnv_scheme \<Rightarrow> nat \<Rightarrow> TabMessage \<Rightarrow> World \<Rightarrow> (error + TabResponse) \<times> World" where
  "tabsSendMessage_call env tabId m w =
     ((case tabsSendMessage env (trace w) tabId m of
         Inl e \<Rightarrow> Inl (Error e)
       | Inr response \<Rightarrow> Inr response),
      w\<lparr>trace := trace w @ [TabNotify tabId m]\<rparr>)"

definition runConversation_call ::
  "('e) LlmEnv_scheme \<Rightarrow> string \<Rightarrow> (Role \<times> string) list \<Rightarrow> string \<Rightarrow> string option \<Rightarrow> World
     \<Rightarrow> (error + ConversationResult) \<times> World" where
  "runConversation_call env userMessage hist url domInfo w =
     ((case runConversation env (trace w) userMessage hist url domInfo of
         Inl e \<Rightarrow> Inl (Error e)
       | Inr result \<Rightarrow> Inr result),
      w\<lparr>trace := trace w @ [LlmCall userMessage]\<rparr>)"

definition setTimeout :: "int \<Rightarrow> World \<Rightarrow> World" where
  "setTimeout ms w = w\<lparr>trace := trace w @ [Timeout ms]\<rparr>"

text \<open>
  The block that occurs three times in the handler: look the conversation up in the
  in-memory map and, if it is there, append the given messages to its history, set
  \<open>isActive\<close> as asked, put it back and save it.
\<close>

definition updateConversation ::
  "string \<Rightarrow> (Role \<times> string) list \<Rightarrow> bool \<Rightarrow> World \<Rightarrow> World" where
  "updateConversation cid pushed activate w =
     (case mapGet cid (conversationStates w) of
        None \<Rightarrow> w
      | Some convState \<Rightarrow>
          (let convState' = convState\<lparr>history := history convState @ pushed,
                                         isActive := (if activate then True else isActive convState)\<rparr>
           in saveConversationState convState'
                (w\<lparr>conversationStates := mapSet cid convState' (conversationStates w)\<rparr>)))"

text \<open>\<open>stepsWithIds\<close>: a step without an id gets a random one, a step without a URL the current one.\<close>

fun stepsWithIds ::
  "('e) Env_scheme \<Rightarrow> string \<Rightarrow> Step list \<Rightarrow> World \<Rightarrow> Step list \<times> World" where
  "stepsWithIds env currentUrl [] w = ([], w)"
| "stepsWithIds env currentUrl (s # ss) w =
     (let (i, w1) = (if step_id s \<noteq> [] then (step_id s, w) else randomId env ''step'' w);
          s' = s\<lparr>step_id := i,
                 step_urlPattern := (if truthy (step_urlPattern s) then step_urlPattern s
                                     else Some currentUrl)\<rparr>;
          (rest, w2) = stepsWithIds env currentUrl ss w1
      in (s' # rest, w2))"

text \<open>
  The polling loop after a successful click, from the counter \<open>waitCount\<close> on. The result
  is the value of \<open>currentUrl\<close> afterwards.
\<close>

function pollNavigation ::
  "('e) LlmEnv_scheme \<Rightarrow> nat \<Rightarrow> string \<Rightarrow> nat \<Rightarrow> World \<Rightarrow> string \<times> World" where
  "pollNavigation env tabId previousUrl waitCount w =
     (if waitCount < 20 then
        (let w1 = setTimeout 500 w in
         case tabsGet_call env tabId w1 of
           (Inl e, w2) \<Rightarrow> pollNavigation env tabId previousUrl (Suc waitCount) w2
         | (Inr updatedTab, w2) \<Rightarrow>
             if truthy (tab_url updatedTab) \<and> the (tab_url updatedTab) \<noteq> previousUrl \<and>
                tab_status updatedTab = Some ''complete''
             then (the (tab_url updatedTab), setTimeout 2000 w2)
             else pollNavigation env tabId previousUrl (Suc waitCount) w2)
      else (previousUrl, w))"
  by pat_completeness auto
termination
  by (relation "measure (\<lambda>(env, tabId, previousUrl, waitCount, w). 20 - waitCount)") auto

declare pollNavigation.simps [simp del]

text \<open>
  The \<open>for\<close> loop over \<open>stepsWithIds\<close>. Its state is the recording buffer, the list
  \<open>executedSteps\<close> and \<open>currentUrl\<close>. A failure result takes the empty \<open>else\<close> branch, an
  error of the send is caught and ignored; both go on with the next step.
\<close>

fun conversation_loop ::
  "('e) LlmEnv_scheme \<Rightarrow> nat \<Rightarrow> string \<Rightarrow> Step list \<Rightarrow> RecordingBuffer \<times> Step list \<times> string
     \<Rightarrow> World \<Rightarrow> (RecordingBuffer \<times> Step list \<times> string) \<times> World" where
  "conversation_loop env tabId cid [] st w = (st, w)"
| "conversation_loop env tabId cid (step # rest) (buffer, executedSteps, currentUrl) w =
     (let w1 = (if step_type step = Click \<or> step_type step = Wait then setTimeout 1000 w else w);
          w2 = updateConversation cid [] True w1
      in case sendStepToTab env tabId step w2 of
           (Inl e, w3) \<Rightarrow>
             conversation_loop env tabId cid rest (buffer, executedSteps, currentUrl) w3
         | (Inr execResult, w3) \<Rightarrow>
             if success execResult then
               (let buffer' = buffer\<lparr>buf_steps := buf_steps buffer @ [step]\<rparr>;
                    w4 = upsertRecordingBuffer buffer'
                           (w3\<lparr>recordingBuffers := mapSet tabId buffer' (recordingBuffers w3)\<rparr>);
                    w5 = updateConversation cid [] True w4;
                    (url, w6) = (if step_type step = Click
                                 then pollNavigation env tabId currentUrl 0 w5
                                 else (currentUrl, setTimeout 500 w5))
                in conversation_loop env tabId cid rest (buffer', executedSteps @ [step], url) w6)
             else conversation_loop env tabId cid rest (buffer, executedSteps, currentUrl) w3)"

text \<open>
  The test for the three keywords in the lower-cased user message. The keywords are
  Japanese words (report, summarize, inform), given here as their UTF-8 bytes. No
  character has one of their characters as its lower case, so the message contains a
  keyword after \<open>toLowerCase\<close> exactly when it did before.
\<close>

fun includes_str :: "string \<Rightarrow> string \<Rightarrow> bool" where
  "includes_str [] needle = (needle = [])"
| "includes_str (c # s) needle =
     (take (length needle) (c # s) = needle \<or> includes_str s needle)"

definition asksForReport :: "string \<Rightarrow> bool" where
  "asksForReport userMessage =
     (let m = toLowerCase userMessage in
      includes_str m [CHR 0xE3, CHR 0x83, CHR 0xAC, CHR 0xE3, CHR 0x83, CHR 0x9D,
                  CHR 0xE3, CHR 0x83, CHR 0xBC, CHR 0xE3, CHR 0x83, CHR 0x88] \<or>
      includes_str m [CHR 0xE3, CHR 0x81, CHR 0xBE, CHR 0xE3, CHR 0x81, CHR 0xA8,
                  CHR 0xE3, CHR 0x82, CHR 0x81, CHR 0xE3, CHR 0x81, CHR 0xA6] \<or>
      includes_str m [CHR 0xE5, CHR 0xA0, CHR 0xB1, CHR 0xE5, CHR 0x91, CHR 0x8A])"

text \<open>
  The block after the loop that may ask the LLM for a report. Every error in it is caught
  and logged; the result is the report content, if one was produced.
\<close>

definition reportRound ::
  "('e) LlmEnv_scheme \<Rightarrow> nat \<Rightarrow> RunLlmConversationMessage \<Rightarrow> (Role \<times> string) list \<Rightarrow> string
     \<Rightarrow> Step list \<Rightarrow> World \<Rightarrow> string option \<times> World" where
  "reportRound env tabId message hist response steps w =
     (if steps \<noteq> [] \<and> (step_type (last steps) = Click \<or> step_type (last steps) = Wait) then
        (case tabsSendMessage_call env tabId GetPageContentMsg w of
           (Inr (PageContent (Some (url, title, content))), w1) \<Rightarrow>
             if asksForReport (msg_message message) then
               (case runConversation_call env
                       (reportPrompt env (msg_message message) url title content)
                       (hist @ [(User, msg_message message), (Assistant, response)])
                       url None w1 of
                  (Inr reportResult, w2) \<Rightarrow>
                    ((case conv_action reportResult of
                        Some (ReportAction c) \<Rightarrow> if c \<noteq> [] then Some c else None
                      | _ \<Rightarrow> None), w2)
                | (Inl e, w2) \<Rightarrow> (None, w2))
             else (None, w1)
         | (r, w1) \<Rightarrow> (None, w1))
      else (None, w))"

text \<open>
  The \<open>execute\<close> branch: from \<open>stepsWithIds\<close> to the removal of the recording buffer.
  \<open>Inl\<close> is an error that leaves the handler through its outer \<open>catch\<close>.
\<close>

definition executeBranch ::
  "('e) LlmEnv_scheme \<Rightarrow> nat \<Rightarrow> string \<Rightarrow> RunLlmConversationMessage \<Rightarrow> (Role \<times> string) list
     \<Rightarrow> string \<Rightarrow> string \<Rightarrow> Step list \<Rightarrow> World
     \<Rightarrow> (error + Step list \<times> string option) \<times> World" where
  "executeBranch env tabId cid message hist currentUrl response llmSteps w =
     (let (steps, w1) = stepsWithIds env currentUrl llmSteps w;
          (sid, w2) = randomId env ''rec'' w1;
          (now, w3) = nowIso env w2;
          buffer = \<lparr>buf_tabId = tabId, sessionId = sid, buf_steps = [], buf_startedAt = now\<rparr>;
          w4 = upsertRecordingBuffer buffer
                 (w3\<lparr>recordingBuffers := mapSet tabId buffer (recordingBuffers w3)\<rparr>)
      in case tabsSendMessage_call env tabId StartRecordingMsg w4 of
           (Inl e, w5) \<Rightarrow> (Inl e, w5)
         | (Inr r, w5) \<Rightarrow>
             (let w6 = updateConversation cid [(Assistant, response)] True w5;
                  ((buffer', executedSteps, url), w7) =
                     conversation_loop env tabId cid steps (buffer, [], currentUrl) w6;
                  (reportContent, w8) = reportRound env tabId message hist response steps w7
              in case tabsSendMessage_call env tabId StopRecordingMsg w8 of
                   (Inl e, w9) \<Rightarrow> (Inl e, w9)
                 | (Inr r', w9) \<Rightarrow>
                     (Inr (executedSteps, reportContent),
                      removeRecordingBuffer tabId
                        (w9\<lparr>recordingBuffers := mapDelete tabId (recordingBuffers w9)\<rparr>))))"

text \<open>
  The \<open>try\<close> block that asks the tab for its DOM summary; any failure leaves \<open>domInfo\<close>
  at \<open>null\<close>.
\<close>

definition getDomInfo ::
  "('e) LlmEnv_scheme \<Rightarrow> nat \<Rightarrow> World \<Rightarrow> string option \<times> World" where
  "getDomInfo env tabId w =
     (case tabsSendMessage_call env tabId GetPageDomInfoMsg w of
        (Inr (PageDomInfo (Some d)), w') \<Rightarrow> (if d \<noteq> [] then Some d else None, w')
      | (r, w') \<Rightarrow> (None, w'))"

text \<open>\<open>message.conversationId || randomId("conv")\<close>\<close>

definition conversationIdOf ::
  "('e) Env_scheme \<Rightarrow> RunLlmConversationMessage \<Rightarrow> World \<Rightarrow> string \<times> World" where
  "conversationIdOf env message w =
     (if truthy (msg_conversationId message) then (the (msg_conversationId message), w)
      else randomId env ''conv'' w)"

text \<open>
  What the handler does with the result of \<open>runConversation\<close>: run the \<open>execute\<close>
  branch, take the content of a \<open>report\<close>, or nothing.
\<close>

definition performAction ::
  "('e) LlmEnv_scheme \<Rightarrow> nat \<Rightarrow> string \<Rightarrow> RunLlmConversationMessage \<Rightarrow> (Role \<times> string) list
     \<Rightarrow> string \<Rightarrow> ConversationResult \<Rightarrow> World
     \<Rightarrow> (error + Step list \<times> string option) \<times> World" where
  "performAction env tabId cid message hist currentUrl result w =
     (case conv_action result of
        Some (ExecuteAction llmSteps) \<Rightarrow>
          executeBranch env tabId cid message hist currentUrl (conv_response result) llmSteps w
      | Some (ReportAction c) \<Rightarrow> (Inr ([], if c \<noteq> [] then Some c else None), w)
      | None \<Rightarrow> (Inr ([], None), w))"

definition handleRunLlmConversation ::
  "('e) LlmEnv_scheme \<Rightarrow> RunLlmConversationMessage \<Rightarrow> World \<Rightarrow> BackgroundResponse \<times> World" where
  "handleRunLlmConversation env message w =
     (case getActiveTabId env w of
        (Inl (Error m), w1) \<Rightarrow> (RespError m, w1)
      | (Inr tabId, w1) \<Rightarrow>
     (case tabsGet_call env tabId w1 of
        (Inl (Error m), w2) \<Rightarrow> (RespError m, w2)
      | (Inr tab, w2) \<Rightarrow>
     (let currentUrl = (if truthy (tab_url tab) then the (tab_url tab) else []);
          (domInfo, w3) = getDomInfo env tabId w2;
          (cid, w4) = conversationIdOf env message w3;
          hist = (case msg_history message of None \<Rightarrow> [] | Some h \<Rightarrow> h);
          state = \<lparr>conversationId = cid, history = hist @ [(User, msg_message message)],
                   conv_tabId = tabId, isActive = True\<rparr>;
          w5 = saveConversationState state
                 (w4\<lparr>conversationStates := mapSet cid state (conversationStates w4)\<rparr>)
      in case runConversation_call env (msg_message message) hist currentUrl domInfo w5 of
           (Inl (Error m), w6) \<Rightarrow> (RespError m, w6)
         | (Inr result, w6) \<Rightarrow>
             (case performAction env tabId cid message hist currentUrl result w6 of
                (Inl (Error m), w7) \<Rightarrow> (RespError m, w7)
              | (Inr (executedSteps, reportContent), w7) \<Rightarrow>
                  (RespLlmConversation cid (conv_response result)
                     (if executedSteps \<noteq> [] then Some executedSteps else None) reportContent,
                   updateConversation cid [(Assistant, conv_response result)] False w7)))))"

section \<open>Observations used to state the properties of a run\<close>

text \<open>
  \<open>stepLogView\<close> is a step log without its timestamps and name. \<open>responseAt\<close> is
  the tab's answer to the \<open>k\<close>-th step of a list when the steps before it have been
  sent, in order, after the trace \<open>tr\<close>. \<open>succeeded\<close> says that an answer arrived
  and reports success; \<open>failureMessage\<close> is the message of an answer that did not.
  \<open>loggedAs\<close> reads a stored run log by id, and \<open>flowSteps\<close> is the step sequence
  \<open>runFlow\<close> computes for a flow.
\<close>

definition stepLogView :: "StepRunLog \<Rightarrow> string \<times> RunStatus \<times> string option" where
  "stepLogView l = (stepId l, stepStatus l, errorMessage l)"

definition responseAt ::
  "('e) Env_scheme \<Rightarrow> nat \<Rightarrow> event list \<Rightarrow> Step list \<Rightarrow> nat \<Rightarrow> string + StepResultMessage" where
  "responseAt env tabId tr steps k =
     tabsSendStep env (tr @ map (ExecuteStep tabId) (take k steps)) tabId (steps ! k)"

definition succeeded :: "string + StepResultMessage \<Rightarrow> bool" where
  "succeeded r = (case r of Inl m \<Rightarrow> False | Inr response \<Rightarrow> success response)"

definition failureMessage :: "string + StepResultMessage \<Rightarrow> string option" where
  "failureMessage r = (case r of Inl m \<Rightarrow> Some m | Inr response \<Rightarrow> res_errorMessage response)"

definition loggedAs :: "World \<Rightarrow> string \<Rightarrow> FlowRunLog option" where
  "loggedAs w i = find (\<lambda>l. log_id l = i) (logs w)"

definition flowSteps :: "Flow \<Rightarrow> World \<Rightarrow> Step list" where
  "flowSteps flow w =
     flattenSteps flow (newMap (map (\<lambda>t. (task_id t, task_steps t)) (tasks w)))"

text \<open>
  The claim about starting a recording, in the spec's words: when the active tab already
  has a stored buffer, \<open>handleStartRecording\<close> is rejected or leaves the tab with a
  buffer that holds the steps accumulated so far.
\<close>

definition spec_startKeepsSteps :: "('e) Env_scheme \<Rightarrow> World \<Rightarrow> bool" where
  "spec_startKeepsSteps env w =
     (case fst (getActiveTabId env w) of
        Inl e \<Rightarrow> True
      | Inr tabId \<Rightarrow>
          (case getRecordingBuffer tabId w of
             None \<Rightarrow> True
           | Some existing \<Rightarrow>
               (case handleStartRecording env w of
                  (Inl e, w') \<Rightarrow> True
                | (Inr response, w') \<Rightarrow>
                    map_option buf_steps (getRecordingBuffer tabId w') = Some (buf_steps existing) \<and>
                    map_option buf_steps (mapGet tabId (recordingBuffers w'))
                      = Some (buf_steps existing))))"

text \<open>
  The class names of an element, and the element children of its parent (none for the
  root), as the loop of \<open>fallbackCss\<close> reads them.
\<close>

definition classFragments :: "node \<Rightarrow> string list" where
  "classFragments el =
     filter (\<lambda>c. c \<noteq> [])
       (split CHR '' '' (case getAttribute el ''class'' of None \<Rightarrow> [] | Some v \<Rightarrow> v))"

definition siblingsOf :: "node \<Rightarrow> nat list \<Rightarrow> node list" where
  "siblingsOf doc p =
     (case parentElement p of
        None \<Rightarrow> []
      | Some q \<Rightarrow> (case nodeAt doc q of None \<Rightarrow> [] | Some parent \<Rightarrow> children parent))"

text \<open>
  \<open>sentSteps\<close> lists the steps a trace sent to a tab, in order. \<open>succeededSteps\<close>
  lists those of them that the tab answered with success, each answer taken at the moment
  the step was sent (\<open>pre\<close> is the trace before the part looked at). A trace is
  \<open>quiet\<close> when it sends no step.
\<close>

definition sentSteps :: "event list \<Rightarrow> Step list" where
  "sentSteps tr = concat (map (\<lambda>e. case e of ExecuteStep t s \<Rightarrow> [s] | _ \<Rightarrow> []) tr)"

fun succeededSteps :: "('e) Env_scheme \<Rightarrow> event list \<Rightarrow> event list \<Rightarrow> Step list" where
  "succeededSteps env pre [] = []"
| "succeededSteps env pre (e # tr) =
     (case e of
        ExecuteStep t s \<Rightarrow> if succeeded (tabsSendStep env pre t s) then [s] else []
      | _ \<Rightarrow> [])
     @ succeededSteps env (pre @ [e]) tr"

definition quiet :: "event list \<Rightarrow> bool" where
  "quiet tr = (\<forall>e \<in> set tr. case e of ExecuteStep t s \<Rightarrow> False | _ \<Rightarrow> True)"


section \<open>Example data\<close>

definition ex_task :: "string \<Rightarrow> Step list \<Rightarrow> Task" where
  "ex_task i ss =
     \<lparr>task_id = i, task_name = ''task-'' @ i, task_description = Some [],
      task_steps = ss, task_createdAt = ''2024-01-01T00:00:00Z'',
      task_updatedAt = ''2024-01-01T00:00:00Z'', tags = None\<rparr>"

definition ex_world :: World where
  "ex_world =
     \<lparr>tasks = [], flows = [], logs = [], triggers = [], storedRecordingBuffers = [],
      storedConversationStates = [], recordingBuffers = [], conversationStates = [],
      trace = [], clockReads = 0, randomReads = 0\<rparr>"

definition ex_payload :: ImportExportPayload where
  "ex_payload =
     \<lparr>version = 1, payload_tasks = Some [], payload_flows = Some [],
      payload_triggers = Some []\<rparr>"

definition ex_step :: "string \<Rightarrow> Step" where
  "ex_step i =
     \<lparr>step_id = i, step_name = None, step_type = Click,
      selector = Some \<lparr>css = Some ''#btn'', xpath = None, textSnapshot = None,
                       attributes = None\<rparr>,
      step_value = None, step_waitMs = None, step_urlPattern = None, meta = None\<rparr>"

definition ex_flow :: "string \<Rightarrow> string list \<Rightarrow> Flow" where
  "ex_flow i ts =
     \<lparr>flow_id = i, flow_name = ''flow-'' @ i, flow_description = Some [], taskIds = ts,
      autoRunUrlPatterns = Some [], flow_enabled = True,
      flow_createdAt = ''2024-01-01T00:00:00Z'', flow_updatedAt = ''2024-01-01T00:00:00Z''\<rparr>"

definition ex_trigger :: "string \<Rightarrow> string \<Rightarrow> Trigger" where
  "ex_trigger i fid =
     \<lparr>trigger_id = i, trigger_type = Url, trigger_flowId = fid,
      trigger_urlPattern = Some ''example.com'', shortcutName = None, trigger_enabled = True\<rparr>"

definition ex_env :: Env where
  "ex_env =
     \<lparr>clock = (\<lambda>n. ''2024-01-01T00:00:00Z''),
      uuid = (\<lambda>n. ''u''),
      tabsQuery = (\<lambda>tr. Inr (Some 1)),
      tabsSendStep = (\<lambda>tr tabId step.
         Inr \<lparr>res_stepId = step_id step, success = (step_id step \<noteq> ''bad''),
              res_errorMessage = (if step_id step = ''bad'' then Some ''ng'' else None)\<rparr>)\<rparr>"

definition ex_library :: World where
  "ex_library =
     ex_world\<lparr>tasks := [ex_task ''t1'' [ex_step ''s1'', ex_step ''bad'', ex_step ''s3''],
                         ex_task ''t2'' [ex_step ''s4'']],
               flows := [ex_flow ''f1'' [''t1''], ex_flow ''f2'' [''t2'', ''gone'']],
               triggers := [ex_trigger ''g1'' ''f1'', ex_trigger ''g2'' ''f1'',
                            ex_trigger ''g3'' ''f2'']\<rparr>"

definition ex_recorded :: World where
  "ex_recorded =
     snd (handleRecordStep (ex_step ''s1'') (Some 1) (snd (handleStartRecording ex_env ex_world)))"

definition ex_page :: Page where
  "ex_page =
     \<lparr>querySelector = (\<lambda>h sel. Inr None),
      evaluateXPath = (\<lambda>h x. Inr (Some 7)),
      isForm = (\<lambda>h el. False),
      domThrows = (\<lambda>h ev. None)\<rparr>"

definition ex_selector :: SelectorInfo where
  "ex_selector =
     \<lparr>css = Some ''#gone'', xpath = Some ''/html[1]/body[1]/button[1]'',
      textSnapshot = None, attributes = None\<rparr>"

definition ex_clickBoth :: Step where
  "ex_clickBoth = (ex_step ''c1'')\<lparr>selector := Some ex_selector\<rparr>"

definition ex_clickXPathOnly :: Step where
  "ex_clickXPathOnly = (ex_step ''c2'')\<lparr>selector := Some (ex_selector\<lparr>css := None\<rparr>)\<rparr>"


definition ex_esc :: "string \<Rightarrow> string" where
  "ex_esc s = s"

definition ex_trimSlice :: "string \<Rightarrow> string" where
  "ex_trimSlice s = s"

definition ex_spanNode :: node where
  "ex_spanNode = Elem ''SPAN'' [] [Text ''hello'']"

definition ex_divNode :: node where
  "ex_divNode = Elem ''DIV'' [(''class'', ''a b  c'')] [ex_spanNode, Elem ''EM'' [] []]"

definition ex_buttonNode :: node where
  "ex_buttonNode = Elem ''BUTTON'' [(''data-test'', ''save'')] [Text ''Save'']"

definition ex_inputNode :: node where
  "ex_inputNode = Elem ''INPUT'' [(''data-testid'', ''email'')] []"

definition ex_doc :: node where
  "ex_doc =
     Elem ''HTML'' []
       [Elem ''HEAD'' [] [],
        Elem ''BODY'' [] [ex_divNode, ex_buttonNode, ex_inputNode]]"

definition ex_span :: "nat list" where
  "ex_span = [1, 0, 0]"

definition ex_div :: "nat list" where
  "ex_div = [1, 0]"

definition ex_button :: "nat list" where
  "ex_button = [1, 1]"

definition ex_input :: "nat list" where
  "ex_input = [1, 2]"

definition ex_fill :: "string \<Rightarrow> Step" where
  "ex_fill i = (ex_step i)\<lparr>step_type := Input, step_value := Some ''x''\<rparr>"

definition ex_llmEnv :: LlmEnv where
  "ex_llmEnv =
     \<lparr>clock = (\<lambda>n. ''2024-01-01T00:00:00Z''),
      uuid = (\<lambda>n. ''u''),
      tabsQuery = (\<lambda>tr. Inr (Some 1)),
      tabsSendStep = (\<lambda>tr tabId step.
         Inr \<lparr>res_stepId = step_id step, success = (step_id step \<noteq> ''bad''),
              res_errorMessage = (if step_id step = ''bad'' then Some ''ng'' else None)\<rparr>),
      tabsGet = (\<lambda>tr tabId. Inr \<lparr>tab_url = Some ''https://example.com/'',
                                   tab_status = Some ''complete''\<rparr>),
      tabsSendMessage = (\<lambda>tr tabId m. Inr OtherResponse),
      runConversation = (\<lambda>tr m h u d.
         Inr \<lparr>conv_response = ''ok'',
              conv_action = Some (ExecuteAction [ex_fill ''s1'', ex_fill ''bad'',
                                                 ex_fill ''s3''])\<rparr>),
      reportPrompt = (\<lambda>m u t c. m)\<rparr>"

definition ex_message :: RunLlmConversationMessage where
  "ex_message =
     \<lparr>msg_message = ''fill the form'', msg_conversationId = Some ''c1'', msg_history = None\<rparr>"

definition ex_buffer :: RecordingBuffer where
  "ex_buffer =
     \<lparr>buf_tabId = 1, sessionId = ''rec-u'', buf_steps = [],
      buf_startedAt = ''2024-01-01T00:00:00Z''\<rparr>"

definition ex_sent :: "string \<Rightarrow> Step" where
  "ex_sent i = (ex_fill i)\<lparr>step_urlPattern := Some ''https://example.com/''\<rparr>"


section \<open>Import and export (storage.ts)\<close>

lemma map_of_mapSet: "map_of (mapSet k v m) = (map_of m)(k \<mapsto> v)"
  by (induction m) (auto simp: fun_eq_iff)

lemma keys_mapSet:
  "map fst (mapSet k v m) = (if k \<in> fst ` set m then map fst m else map fst m @ [k])"
  by (induction m) (force split: if_splits)+

lemma distinct_mapSet: "distinct (map fst m) \<Longrightarrow> distinct (map fst (mapSet k v m))"
  by (simp add: keys_mapSet)

lemma keyed_mapSet:
  "\<forall>kv \<in> set m. fst kv = ident (snd kv) \<Longrightarrow> k = ident v \<Longrightarrow>
   \<forall>kv \<in> set (mapSet k v m). fst kv = ident (snd kv)"
  by (induction m) (force split: if_splits)+

lemma fold_mapSet_props:
  "distinct (map fst m) \<Longrightarrow> \<forall>kv \<in> set m. fst kv = ident (snd kv) \<Longrightarrow>
   distinct (map fst (fold (\<lambda>item m. mapSet (ident item) item m) xs m)) \<and>
   (\<forall>kv \<in> set (fold (\<lambda>item m. mapSet (ident item) item m) xs m). fst kv = ident (snd kv)) \<and>
   map_of (fold (\<lambda>item m. mapSet (ident item) item m) xs m)
     = map_of m ++ map_of (rev (map (\<lambda>x. (ident x, x)) xs))"
proof (induction xs arbitrary: m)
  case Nil
  then show ?case by simp
next
  case (Cons x xs)
  have d: "distinct (map fst (mapSet (ident x) x m))"
    using Cons.prems(1) by (rule distinct_mapSet)
  have k: "\<forall>kv \<in> set (mapSet (ident x) x m). fst kv = ident (snd kv)"
    using Cons.prems(2) by (rule keyed_mapSet) simp
  have m: "map_of (mapSet (ident x) x m) ++ map_of (rev (map (\<lambda>x. (ident x, x)) xs))
         = map_of m ++ map_of (rev (map (\<lambda>x. (ident x, x)) (x # xs)))"
    by (simp add: map_of_mapSet fun_eq_iff map_add_def split: option.splits)
  from Cons.IH [OF d k] m show ?case by simp
qed

lemma newMap_fold:
  "newMap (map (\<lambda>item. (ident item, item)) base)
     = fold (\<lambda>item m. mapSet (ident item) item m) base []"
  by (simp add: newMap_def fold_map comp_def)

lemma find_keyed:
  "\<forall>kv \<in> set m. fst kv = ident (snd kv) \<Longrightarrow>
   find (\<lambda>x. ident x = k) (map snd m) = map_of m k"
  by (induction m) auto

lemma map_of_keyed_rev:
  "map_of (map (\<lambda>x. (ident x, x)) (rev xs)) k = lookupLast ident k xs"
  unfolding lookupLast_def
  by (induction xs rule: rev_induct) auto

lemma mergeById_distinct: "distinct (map ident (mergeById ident base incoming))"
proof -
  let ?f = "\<lambda>item m. mapSet (ident item) item m"
  have b: "distinct (map fst (fold ?f base [])) \<and>
           (\<forall>kv \<in> set (fold ?f base []). fst kv = ident (snd kv))"
    using fold_mapSet_props [of "[]" ident base] by simp
  then have i: "distinct (map fst (fold ?f incoming (fold ?f base []))) \<and>
        (\<forall>kv \<in> set (fold ?f incoming (fold ?f base [])). fst kv = ident (snd kv))"
    using fold_mapSet_props [of "fold ?f base []" ident incoming] by simp
  then have "map ident (map snd (fold ?f incoming (fold ?f base [])))
             = map fst (fold ?f incoming (fold ?f base []))"
    by simp
  with i show ?thesis by (simp add: mergeById_def newMap_fold del: map_map)
qed

lemma mergeById_find:
  "find (\<lambda>x. ident x = k) (mergeById ident base incoming) =
     (case lookupLast ident k incoming of Some x \<Rightarrow> Some x | None \<Rightarrow> lookupLast ident k base)"
proof -
  let ?f = "\<lambda>item m. mapSet (ident item) item m"
  have b: "distinct (map fst (fold ?f base [])) \<and>
           (\<forall>kv \<in> set (fold ?f base []). fst kv = ident (snd kv)) \<and>
           map_of (fold ?f base []) = map_of (rev (map (\<lambda>x. (ident x, x)) base))"
    using fold_mapSet_props [of "[]" ident base] by simp
  then have i: "(\<forall>kv \<in> set (fold ?f incoming (fold ?f base [])). fst kv = ident (snd kv)) \<and>
     map_of (fold ?f incoming (fold ?f base [])) =
       map_of (rev (map (\<lambda>x. (ident x, x)) base)) ++
       map_of (rev (map (\<lambda>x. (ident x, x)) incoming))"
    using fold_mapSet_props [of "fold ?f base []" ident incoming] by simp
  then have "find (\<lambda>x. ident x = k) (map snd (fold ?f incoming (fold ?f base [])))
     = (map_of (rev (map (\<lambda>x. (ident x, x)) base)) ++
        map_of (rev (map (\<lambda>x. (ident x, x)) incoming))) k"
    using find_keyed [of "fold ?f incoming (fold ?f base [])" ident k] by simp
  then show ?thesis
    by (simp add: mergeById_def newMap_fold map_add_def map_of_keyed_rev rev_map
          split: option.splits)
qed

lemma mergeById_scenario:
  "ident a \<noteq> ident b \<Longrightarrow> mergeById ident [a] [b] = [a, b]"
  by (simp add: mergeById_def newMap_def)

text \<open>
  Claim C9. In \<open>replace\<close> mode \<open>importData\<close> stores exactly the incoming tasks, flows
  and triggers (the empty list for a collection the payload lacks). In \<open>merge\<close> mode
  each stored collection has pairwise distinct ids, and under every id \<open>k\<close> it holds
  the incoming item with that id if there is one, and the existing item otherwise (of
  several items with one id in a list, the last). In particular, importing the task
  \<open>b\<close> over the stored task \<open>a\<close> with a different id gives \<open>[a, b]\<close> when merging
  and \<open>[b]\<close> when replacing.
\<close>

theorem importData_modes:
  "tasks (importData p Replace w) = orEmpty (payload_tasks p) \<and>
   flows (importData p Replace w) = orEmpty (payload_flows p) \<and>
   triggers (importData p Replace w) = orEmpty (payload_triggers p) \<and>
   distinct (map task_id (tasks (importData p Merge w))) \<and>
   distinct (map flow_id (flows (importData p Merge w))) \<and>
   distinct (map trigger_id (triggers (importData p Merge w))) \<and>
   find (\<lambda>t. task_id t = k) (tasks (importData p Merge w)) =
     (case lookupLast task_id k (orEmpty (payload_tasks p)) of
        Some x \<Rightarrow> Some x | None \<Rightarrow> lookupLast task_id k (tasks w)) \<and>
   find (\<lambda>f. flow_id f = k) (flows (importData p Merge w)) =
     (case lookupLast flow_id k (orEmpty (payload_flows p)) of
        Some x \<Rightarrow> Some x | None \<Rightarrow> lookupLast flow_id k (flows w)) \<and>
   find (\<lambda>t. trigger_id t = k) (triggers (importData p Merge w)) =
     (case lookupLast trigger_id k (orEmpty (payload_triggers p)) of
        Some x \<Rightarrow> Some x | None \<Rightarrow> lookupLast trigger_id k (triggers w)) \<and>
   (task_id a \<noteq> task_id b \<longrightarrow>
      tasks (importData (p\<lparr>payload_tasks := Some [b]\<rparr>) Merge (w\<lparr>tasks := [a]\<rparr>)) = [a, b] \<and>
      tasks (importData (p\<lparr>payload_tasks := Some [b]\<rparr>) Replace (w\<lparr>tasks := [a]\<rparr>)) = [b])"
  by (simp add: importData_def mergeById_distinct mergeById_find mergeById_scenario orEmpty_def)

theorem importData_modes_witness:
  "task_id (ex_task ''A'' []) \<noteq> task_id (ex_task ''B'' []) \<and>
   tasks (importData (ex_payload\<lparr>payload_tasks := Some [ex_task ''B'' []]\<rparr>) Merge
            (ex_world\<lparr>tasks := [ex_task ''A'' []]\<rparr>))
     = [ex_task ''A'' [], ex_task ''B'' []] \<and>
   tasks (importData (ex_payload\<lparr>payload_tasks := Some [ex_task ''B'' []]\<rparr>) Replace
            (ex_world\<lparr>tasks := [ex_task ''A'' []]\<rparr>))
     = [ex_task ''B'' []]"
  using importData_modes [where p = ex_payload and w = ex_world
          and a = "ex_task ''A'' []" and b = "ex_task ''B'' []"]
  by (simp add: ex_task_def)

section \<open>The Flow Runner (runner.ts)\<close>

lemma findIndex_None: "findIndex P xs = None \<longleftrightarrow> (\<forall>x \<in> set xs. \<not> P x)"
  by (induction xs) (auto split: option.splits)

lemma findIndex_Some:
  "findIndex P xs = Some i \<Longrightarrow> i < length xs \<and> P (xs ! i) \<and> (\<forall>j < i. \<not> P (xs ! j))"
proof (induction xs arbitrary: i)
  case Nil
  then show ?case by simp
next
  case (Cons x xs)
  show ?case
  proof (cases "P x")
    case True
    with Cons.prems show ?thesis by simp
  next
    case False
    with Cons.prems obtain k where k: "findIndex P xs = Some k" "i = Suc k"
      by (auto split: option.splits)
    from Cons.IH [OF k(1)] False k(2) show ?thesis
      by (auto simp: less_Suc_eq_0_disj)
  qed
qed

lemma find_upsert_same:
  "key x = k \<Longrightarrow> find (\<lambda>y. key y = k) (upsert key x xs) = Some x"
proof (induction xs)
  case Nil
  then show ?case by (simp add: upsert_def)
next
  case (Cons a xs)
  then show ?case
    by (auto simp: upsert_def split: option.splits)
qed

lemma find_upsert_other:
  "k \<noteq> key x \<Longrightarrow> find (\<lambda>y. key y = k) (upsert key x xs) = find (\<lambda>y. key y = k) xs"
proof (induction xs)
  case Nil
  then show ?case by (simp add: upsert_def)
next
  case (Cons a xs)
  then show ?case
    by (auto simp: upsert_def split: option.splits)
qed

lemma addStepLog_props:
  "addStepLog env l s st err w = (l', w') \<Longrightarrow>
     stepLogs l' = stepLogs l @ [\<lparr>stepId = step_id s, stepName = step_name s, stepStatus = st,
        stepStartedAt = clock env (clockReads w), stepFinishedAt = clock env (clockReads w),
        errorMessage = err\<rparr>] \<and>
     log_id l' = log_id l \<and> status l' = status l \<and> trace w' = trace w \<and>
     loggedAs w' (log_id l) = Some l'"
  by (auto simp: addStepLog_def nowIso_def upsertLog_def loggedAs_def find_upsert_same Let_def)

lemma finalizeFlowLog_props:
  "finalizeFlowLog env l st w = (l', w') \<Longrightarrow>
     stepLogs l' = stepLogs l \<and> log_id l' = log_id l \<and> status l' = st \<and>
     trace w' = trace w \<and> loggedAs w' (log_id l) = Some l'"
  by (auto simp: finalizeFlowLog_def nowIso_def upsertLog_def loggedAs_def find_upsert_same Let_def)

lemma responseAt_0: "responseAt env tabId tr (s # ss) 0 = tabsSendStep env tr tabId s"
  by (simp add: responseAt_def)

lemma responseAt_Suc:
  "responseAt env tabId tr (s # ss) (Suc k) = responseAt env tabId (tr @ [ExecuteStep tabId s]) ss k"
  by (simp add: responseAt_def)

lemma loop_all_succeed:
  "\<forall>k < length steps. succeeded (responseAt env tabId (trace w) steps k) \<Longrightarrow>
   \<exists>l' w'. runFlow_loop env tabId steps l w = (True, l', w') \<and>
      map stepLogView (stepLogs l') =
        map stepLogView (stepLogs l) @ map (\<lambda>s. (step_id s, Success, None)) steps \<and>
      log_id l' = log_id l \<and>
      trace w' = trace w @ map (ExecuteStep tabId) steps"
proof (induction steps arbitrary: l w)
  case Nil
  then show ?case by simp
next
  case (Cons s ss)
  from Cons.prems have s0: "succeeded (tabsSendStep env (trace w) tabId s)"
    using responseAt_0 [of env tabId "trace w" s ss] by fastforce
  then obtain r where r: "tabsSendStep env (trace w) tabId s = Inr r" "success r"
    by (auto simp: succeeded_def split: sum.splits)
  define w1 where "w1 = w\<lparr>trace := trace w @ [ExecuteStep tabId s]\<rparr>"
  obtain l2 w2 where a: "addStepLog env l s Success None w1 = (l2, w2)"
    by (cases "addStepLog env l s Success None w1") auto
  note ap = addStepLog_props [OF a]
  have rest: "\<forall>k < length ss. succeeded (responseAt env tabId (trace w2) ss k)"
  proof (intro allI impI)
    fix k assume "k < length ss"
    then have "succeeded (responseAt env tabId (trace w) (s # ss) (Suc k))"
      using Cons.prems by simp
    then show "succeeded (responseAt env tabId (trace w2) ss k)"
      using ap by (simp add: responseAt_Suc w1_def)
  qed
  from Cons.IH [OF rest, of l2] obtain l' w' where
    ih: "runFlow_loop env tabId ss l2 w2 = (True, l', w')"
        "map stepLogView (stepLogs l') =
           map stepLogView (stepLogs l2) @ map (\<lambda>s. (step_id s, Success, None)) ss"
        "log_id l' = log_id l2"
        "trace w' = trace w2 @ map (ExecuteStep tabId) ss"
    by blast
  have run: "runFlow_loop env tabId (s # ss) l w = (True, l', w')"
    using r a ih(1) by (simp add: sendStepToTab_def w1_def)
  have v: "map stepLogView (stepLogs l2) =
           map stepLogView (stepLogs l) @ [(step_id s, Success, None)]"
    using ap by (simp add: stepLogView_def)
  have t: "trace w2 = trace w @ [ExecuteStep tabId s]"
    using ap by (simp add: w1_def)
  show ?case
    unfolding run using ih(2,3,4) v t ap by simp
qed

lemma loop_first_failure:
  "k < length steps \<Longrightarrow>
   \<forall>j < k. succeeded (responseAt env tabId (trace w) steps j) \<Longrightarrow>
   \<not> succeeded (responseAt env tabId (trace w) steps k) \<Longrightarrow>
   \<exists>l' w'. runFlow_loop env tabId steps l w = (False, l', w') \<and>
      map stepLogView (stepLogs l') =
        map stepLogView (stepLogs l) @ map (\<lambda>s. (step_id s, Success, None)) (take k steps)
          @ [(step_id (steps ! k), Failed,
              failureMessage (responseAt env tabId (trace w) steps k))] \<and>
      status l' = Failed \<and>
      log_id l' = log_id l \<and>
      loggedAs w' (log_id l) = Some l' \<and>
      trace w' = trace w @ map (ExecuteStep tabId) (take (Suc k) steps)"
proof (induction steps arbitrary: l w k)
  case Nil
  then show ?case by simp
next
  case (Cons s ss)
  define w1 where "w1 = w\<lparr>trace := trace w @ [ExecuteStep tabId s]\<rparr>"
  show ?case
  proof (cases k)
    case 0
    then have f: "\<not> succeeded (tabsSendStep env (trace w) tabId s)"
      using Cons.prems(3) by (simp add: responseAt_0)
    define err where "err = failureMessage (tabsSendStep env (trace w) tabId s)"
    obtain l2 w2 where a: "addStepLog env l s Failed err w1 = (l2, w2)"
      by (cases "addStepLog env l s Failed err w1") auto
    obtain l3 w3 where b: "finalizeFlowLog env l2 Failed w2 = (l3, w3)"
      by (cases "finalizeFlowLog env l2 Failed w2") auto
    note ap = addStepLog_props [OF a]
    note bp = finalizeFlowLog_props [OF b]
    have run: "runFlow_loop env tabId (s # ss) l w = (False, l3, w3)"
      using f a b
      by (auto simp: sendStepToTab_def w1_def err_def succeeded_def failureMessage_def
               split: sum.splits error.splits)
    have v: "map stepLogView (stepLogs l3) =
             map stepLogView (stepLogs l) @ [(step_id s, Failed, err)]"
      using ap bp by (simp add: stepLogView_def)
    have t: "trace w3 = trace w @ [ExecuteStep tabId s]"
      using ap bp by (simp add: w1_def)
    show ?thesis
      unfolding run using v t ap bp 0
      by (simp add: responseAt_0 err_def)
  next
    case (Suc k')
    have s0: "succeeded (tabsSendStep env (trace w) tabId s)"
      using Cons.prems(2) Suc responseAt_0 [of env tabId "trace w" s ss] by fastforce
    then obtain r where r: "tabsSendStep env (trace w) tabId s = Inr r" "success r"
      by (auto simp: succeeded_def split: sum.splits)
    obtain l2 w2 where a: "addStepLog env l s Success None w1 = (l2, w2)"
      by (cases "addStepLog env l s Success None w1") auto
    note ap = addStepLog_props [OF a]
    have tr: "trace w2 = trace w @ [ExecuteStep tabId s]"
      using ap by (simp add: w1_def)
    have k': "k' < length ss" using Cons.prems(1) Suc by simp
    have pre: "\<forall>j < k'. succeeded (responseAt env tabId (trace w2) ss j)"
    proof (intro allI impI)
      fix j assume "j < k'"
      then have "succeeded (responseAt env tabId (trace w) (s # ss) (Suc j))"
        using Cons.prems(2) Suc by simp
      then show "succeeded (responseAt env tabId (trace w2) ss j)"
        by (simp add: responseAt_Suc tr)
    qed
    have fl: "\<not> succeeded (responseAt env tabId (trace w2) ss k')"
      using Cons.prems(3) Suc by (simp add: responseAt_Suc tr)
    from Cons.IH [OF k' pre fl, of l2] obtain l' w' where
      ih: "runFlow_loop env tabId ss l2 w2 = (False, l', w')"
          "map stepLogView (stepLogs l') =
             map stepLogView (stepLogs l2) @ map (\<lambda>s. (step_id s, Success, None)) (take k' ss)
               @ [(step_id (ss ! k'), Failed,
                   failureMessage (responseAt env tabId (trace w2) ss k'))]"
          "status l' = Failed"
          "log_id l' = log_id l2"
          "loggedAs w' (log_id l2) = Some l'"
          "trace w' = trace w2 @ map (ExecuteStep tabId) (take (Suc k') ss)"
      by blast
    have run: "runFlow_loop env tabId (s # ss) l w = (False, l', w')"
      using r a ih(1) by (simp add: sendStepToTab_def w1_def)
    have v: "map stepLogView (stepLogs l2) =
             map stepLogView (stepLogs l) @ [(step_id s, Success, None)]"
      using ap by (simp add: stepLogView_def)
    show ?thesis
      unfolding run using ih(2-6) v ap Suc tr
      by (simp add: responseAt_Suc)
  qed
qed

lemma getActiveTabId_world:
  "getActiveTabId env w = (r, w1) \<Longrightarrow>
   w1 = w\<lparr>trace := trace w @ [TabsQuery]\<rparr>"
  by (auto simp: getActiveTabId_def)

lemma createFlowLog_props:
  "createFlowLog env flow trig url w = (l, w') \<Longrightarrow>
   log_id l = ''log-'' @ uuid env (randomReads w) \<and> stepLogs l = [] \<and> status l = Partial \<and>
   trace w' = trace w"
  by (auto simp: createFlowLog_def randomId_def nowIso_def Let_def)

text \<open>
  Claim C1. Let a run of \<open>runFlow\<close> find its flow and its tab. The steps of the
  flattened sequence are sent to the tab one after the other, each after the log entry of
  the one before it is stored.
  If every step is answered with success, the stored run log has status \<open>success\<close> and
  one \<open>success\<close> step log per step, in order, and every step has been sent.
  If step \<open>k\<close> is the first that is answered with a failure, or whose send raises an
  error, the stored run log has status \<open>failed\<close>, one \<open>success\<close> step log for each
  of the \<open>k\<close> steps before it, then one \<open>failed\<close> step log with the error message,
  and nothing after it; the steps after \<open>k\<close> have not been sent.
\<close>

theorem runFlow_log:
  assumes flow: "find (\<lambda>f. flow_id f = fid) (flows w) = Some flow"
      and tab: "(case explicitTabId of Some t \<Rightarrow> (Inr t, w) | None \<Rightarrow> getActiveTabId env w)
                  = (Inr tabId, w1)"
  shows "fst (runFlow env fid explicitTabId trig w) = Inr () \<and>
    ((\<forall>k < length (flowSteps flow w).
         succeeded (responseAt env tabId (trace w1) (flowSteps flow w) k)) \<longrightarrow>
       (\<exists>l. loggedAs (snd (runFlow env fid explicitTabId trig w))
               (''log-'' @ uuid env (randomReads w)) = Some l \<and>
            status l = Success \<and>
            map stepLogView (stepLogs l) =
              map (\<lambda>s. (step_id s, Success, None)) (flowSteps flow w)) \<and>
       trace (snd (runFlow env fid explicitTabId trig w)) =
         trace w1 @ map (ExecuteStep tabId) (flowSteps flow w)) \<and>
    (\<forall>k < length (flowSteps flow w).
       (\<forall>j < k. succeeded (responseAt env tabId (trace w1) (flowSteps flow w) j)) \<and>
       \<not> succeeded (responseAt env tabId (trace w1) (flowSteps flow w) k) \<longrightarrow>
       (\<exists>l. loggedAs (snd (runFlow env fid explicitTabId trig w))
               (''log-'' @ uuid env (randomReads w)) = Some l \<and>
            status l = Failed \<and>
            map stepLogView (stepLogs l) =
              map (\<lambda>s. (step_id s, Success, None)) (take k (flowSteps flow w)) @
              [(step_id (flowSteps flow w ! k), Failed,
                failureMessage (responseAt env tabId (trace w1) (flowSteps flow w) k))]) \<and>
       trace (snd (runFlow env fid explicitTabId trig w)) =
         trace w1 @ map (ExecuteStep tabId) (take (Suc k) (flowSteps flow w)))"
proof -
  let ?steps = "flowSteps flow w"
  let ?R = "runFlow env fid explicitTabId trig w"
  have rr: "randomReads w1 = randomReads w" "tasks w1 = tasks w"
    using tab by (auto split: option.splits dest: getActiveTabId_world)
  obtain l0 w2 where c: "createFlowLog env flow trig None w1 = (l0, w2)"
    by (cases "createFlowLog env flow trig None w1") auto
  note cp = createFlowLog_props [OF c]
  have run: "?R = (case runFlow_loop env tabId ?steps l0 w2 of
                     (False, l, w3) \<Rightarrow> (Inr (), w3)
                   | (True, l, w3) \<Rightarrow> (Inr (), snd (finalizeFlowLog env l Success w3)))"
    using flow tab c by (simp add: runFlow_def flowSteps_def Let_def)
  have ok: "fst ?R = Inr ()"
    unfolding run by (auto split: prod.splits bool.splits)
  have A: "(\<exists>l. loggedAs (snd ?R) (''log-'' @ uuid env (randomReads w)) = Some l \<and>
            status l = Success \<and>
            map stepLogView (stepLogs l) = map (\<lambda>s. (step_id s, Success, None)) ?steps) \<and>
       trace (snd ?R) = trace w1 @ map (ExecuteStep tabId) ?steps"
    if all: "\<forall>k < length ?steps. succeeded (responseAt env tabId (trace w1) ?steps k)"
  proof -
    have all2: "\<forall>k < length ?steps. succeeded (responseAt env tabId (trace w2) ?steps k)"
      using all cp by simp
    from loop_all_succeed [OF all2, of l0] obtain l' w' where
      lp: "runFlow_loop env tabId ?steps l0 w2 = (True, l', w')"
          "map stepLogView (stepLogs l') =
             map stepLogView (stepLogs l0) @ map (\<lambda>s. (step_id s, Success, None)) ?steps"
          "log_id l' = log_id l0"
          "trace w' = trace w2 @ map (ExecuteStep tabId) ?steps"
      by blast
    obtain l3 w3 where f: "finalizeFlowLog env l' Success w' = (l3, w3)"
      by (cases "finalizeFlowLog env l' Success w'") auto
    note fp = finalizeFlowLog_props [OF f]
    have R: "snd ?R = w3" unfolding run using lp(1) f by simp
    show ?thesis
      unfolding R using fp lp(2,3,4) cp rr by auto
  qed
  have B: "(\<exists>l. loggedAs (snd ?R) (''log-'' @ uuid env (randomReads w)) = Some l \<and>
            status l = Failed \<and>
            map stepLogView (stepLogs l) =
              map (\<lambda>s. (step_id s, Success, None)) (take k ?steps) @
              [(step_id (?steps ! k), Failed,
                failureMessage (responseAt env tabId (trace w1) ?steps k))]) \<and>
       trace (snd ?R) = trace w1 @ map (ExecuteStep tabId) (take (Suc k) ?steps)"
    if k: "k < length ?steps"
      and pre: "\<forall>j < k. succeeded (responseAt env tabId (trace w1) ?steps j)"
      and bad: "\<not> succeeded (responseAt env tabId (trace w1) ?steps k)"
    for k
  proof -
    have pre2: "\<forall>j < k. succeeded (responseAt env tabId (trace w2) ?steps j)"
      using pre cp by simp
    have bad2: "\<not> succeeded (responseAt env tabId (trace w2) ?steps k)"
      using bad cp by simp
    from loop_first_failure [OF k pre2 bad2, of l0] obtain l' w' where
      lp: "runFlow_loop env tabId ?steps l0 w2 = (False, l', w')"
          "map stepLogView (stepLogs l') =
             map stepLogView (stepLogs l0) @
             map (\<lambda>s. (step_id s, Success, None)) (take k ?steps) @
             [(step_id (?steps ! k), Failed,
               failureMessage (responseAt env tabId (trace w2) ?steps k))]"
          "status l' = Failed"
          "log_id l' = log_id l0"
          "loggedAs w' (log_id l0) = Some l'"
          "trace w' = trace w2 @ map (ExecuteStep tabId) (take (Suc k) ?steps)"
      by blast
    have R: "snd ?R = w'" unfolding run using lp(1) by simp
    show ?thesis
      unfolding R using lp(2-6) cp rr by auto
  qed
  show ?thesis
    using ok A B by blast
qed

lemma ex_steps_f1: "flowSteps (ex_flow ''f1'' [''t1'']) ex_library = [ex_step ''s1'', ex_step ''bad'', ex_step ''s3'']"
  by (simp add: flowSteps_def flattenSteps_def newMap_def mapGet_def ex_library_def ex_task_def ex_flow_def)

lemma ex_steps_f2: "flowSteps (ex_flow ''f2'' [''t2'', ''gone'']) ex_library = [ex_step ''s4'']"
  by (simp add: flowSteps_def flattenSteps_def newMap_def mapGet_def ex_library_def ex_task_def ex_flow_def)

text \<open>
  The run of flow \<open>f2\<close> (one step, which succeeds; its second task is missing) ends
  with a \<open>success\<close> log of one step. The run of flow \<open>f1\<close>, whose second step the
  tab reports as failed with message \<open>ng\<close>, ends with a \<open>failed\<close> log of two steps,
  and its third step is never sent.
\<close>

theorem runFlow_log_witness:
  "(\<exists>l. loggedAs (snd (runFlow ex_env ''f2'' (Some 1) Direct ex_library)) ''log-u'' = Some l \<and>
        status l = Success \<and>
        map stepLogView (stepLogs l) = [(''s4'', Success, None)]) \<and>
   (\<exists>l. loggedAs (snd (runFlow ex_env ''f1'' None (ByTrigger Url) ex_library)) ''log-u'' = Some l \<and>
        status l = Failed \<and>
        map stepLogView (stepLogs l) = [(''s1'', Success, None), (''bad'', Failed, Some ''ng'')]) \<and>
   trace (snd (runFlow ex_env ''f1'' None (ByTrigger Url) ex_library)) =
     [TabsQuery, ExecuteStep 1 (ex_step ''s1''), ExecuteStep 1 (ex_step ''bad'')]"
proof -
  let ?f1 = "ex_flow ''f1'' [''t1'']" and ?f2 = "ex_flow ''f2'' [''t2'', ''gone'']"
  have f2: "find (\<lambda>f. flow_id f = ''f2'') (flows ex_library) = Some ?f2"
    by (simp add: ex_library_def ex_flow_def)
  have f1: "find (\<lambda>f. flow_id f = ''f1'') (flows ex_library) = Some ?f1"
    by (simp add: ex_library_def ex_flow_def)
  have t2: "(case Some (1::nat) of Some t \<Rightarrow> (Inr t, ex_library)
             | None \<Rightarrow> getActiveTabId ex_env ex_library) = (Inr 1, ex_library)"
    by simp
  have t1: "(case None of Some t \<Rightarrow> (Inr t, ex_library)
             | None \<Rightarrow> getActiveTabId ex_env ex_library)
              = (Inr 1, ex_library\<lparr>trace := [TabsQuery]\<rparr>)"
    by (simp add: getActiveTabId_def ex_env_def ex_library_def ex_world_def)
  have r: "randomReads ex_library = 0" "uuid ex_env 0 = ''u''" "trace ex_library = []"
    by (simp_all add: ex_library_def ex_world_def ex_env_def)
  have ids: "step_id (ex_step ''s1'') = ''s1''" "step_id (ex_step ''bad'') = ''bad''"
            "step_id (ex_step ''s4'') = ''s4''"
    by (simp_all add: ex_step_def)
  have h2: "\<forall>k < length (flowSteps ?f2 ex_library).
              succeeded (responseAt ex_env 1 (trace ex_library) (flowSteps ?f2 ex_library) k)"
    by (simp add: ex_steps_f2 responseAt_def succeeded_def ex_env_def ids)
  have k1: "1 < length (flowSteps ?f1 ex_library)"
    by (simp add: ex_steps_f1)
  have h1: "(\<forall>j < 1. succeeded (responseAt ex_env 1 (trace (ex_library\<lparr>trace := [TabsQuery]\<rparr>))
                                 (flowSteps ?f1 ex_library) j)) \<and>
            \<not> succeeded (responseAt ex_env 1 (trace (ex_library\<lparr>trace := [TabsQuery]\<rparr>))
                                 (flowSteps ?f1 ex_library) 1)"
    by (simp add: ex_steps_f1 responseAt_def succeeded_def ex_env_def ids)
  have m1: "failureMessage (responseAt ex_env (Suc 0) [TabsQuery]
              [ex_step ''s1'', ex_step ''bad'', ex_step ''s3''] (Suc 0)) = Some ''ng''"
    by (simp add: responseAt_def failureMessage_def ex_env_def ids)
  note X2 = runFlow_log [OF f2 t2, of Direct, THEN conjunct2, THEN conjunct1, THEN mp, OF h2]
  note Y1 = runFlow_log [OF f1 t1, of "ByTrigger Url", THEN conjunct2, THEN conjunct2,
                         rule_format, OF k1 h1]
  show ?thesis
    using X2 Y1 by (simp add: ex_steps_f1 ex_steps_f2 r m1 ids)
qed

text \<open>
  Claim C10. When no stored flow has the id, \<open>runFlow\<close> throws \<open>Flow not found\<close> and
  the world is what it was: no run log is created, no message is sent, the clock and the
  random source are not read.
\<close>

theorem runFlow_unknown_flow:
  "fid \<notin> flow_id ` set (flows w) \<Longrightarrow>
   runFlow env fid explicitTabId trig w = (Inl (Error ''Flow not found''), w)"
proof -
  assume "fid \<notin> flow_id ` set (flows w)"
  then have "find (\<lambda>f. flow_id f = fid) (flows w) = None"
    by (auto simp: find_None_iff)
  then show ?thesis by (simp add: runFlow_def)
qed

theorem runFlow_unknown_flow_witness:
  "''f9'' \<notin> flow_id ` set (flows ex_library) \<and>
   runFlow ex_env ''f9'' None Direct ex_library = (Inl (Error ''Flow not found''), ex_library) \<and>
   logs (snd (runFlow ex_env ''f9'' None Direct ex_library)) = logs ex_library"
proof -
  have h: "''f9'' \<notin> flow_id ` set (flows ex_library)"
    by (simp add: ex_library_def ex_flow_def)
  show ?thesis
    using h runFlow_unknown_flow [OF h, of ex_env None Direct] by simp
qed

section \<open>Deleting a flow (background/index.ts)\<close>

text \<open>
  Every concurrent \<open>deleteTrigger\<close> filters the list that was stored when
  \<open>Promise.all\<close> began, and the last write stays: only the last orphan id is gone.
\<close>

lemma promiseAll_deleteTrigger_last:
  "ids \<noteq> [] \<Longrightarrow>
   triggers (promiseAll_deleteTrigger ids w) = filter (\<lambda>t. trigger_id t \<noteq> last ids) (triggers w)"
proof -
  have g: "triggers (fold (\<lambda>(triggerId, snapshot) s. deleteTrigger_write triggerId snapshot s)
                  (map (\<lambda>triggerId. (triggerId, snap)) ids) s0)
           = (if ids = [] then triggers s0 else filter (\<lambda>t. trigger_id t \<noteq> last ids) snap)"
    for snap s0
    by (induction ids arbitrary: s0) (auto simp: deleteTrigger_write_def)
  assume "ids \<noteq> []"
  then show ?thesis
    by (simp add: promiseAll_deleteTrigger_def g deleteTrigger_read_def)
qed

text \<open>
  Claim C7. Triggers \<open>g1\<close> and \<open>g2\<close> reference flow \<open>f1\<close>, trigger \<open>g3\<close>
  references \<open>f2\<close>. Deleting \<open>f1\<close> removes the flow and \<open>g2\<close>, leaves \<open>g3\<close>
  as it was, and leaves \<open>g1\<close> stored although its flow is gone.
\<close>

theorem handleDeleteFlow_two_orphans:
  "map trigger_id (triggers ex_library) = [''g1'', ''g2'', ''g3''] \<and>
   map trigger_flowId (triggers ex_library) = [''f1'', ''f1'', ''f2''] \<and>
   fst (handleDeleteFlow ''f1'' ex_library) = Inr RespOk \<and>
   map flow_id (flows (snd (handleDeleteFlow ''f1'' ex_library))) = [''f2''] \<and>
   triggers (snd (handleDeleteFlow ''f1'' ex_library))
     = [ex_trigger ''g1'' ''f1'', ex_trigger ''g3'' ''f2'']"
  by (simp add: handleDeleteFlow_def promiseAll_deleteTrigger_def deleteTrigger_read_def
        deleteTrigger_write_def deleteFlow_def ex_library_def ex_trigger_def ex_flow_def)

section \<open>Starting a recording (background/index.ts)\<close>

lemma upsert_Nil: "upsert key x [] = [x]"
  by (simp add: upsert_def)

lemma upsert_Cons:
  "upsert key x (y # ys) = (if key y = key x then x # ys else y # upsert key x ys)"
  by (simp add: upsert_def split: option.splits)

lemma keys_upsert:
  "map key (upsert key x xs) = (if key x \<in> key ` set xs then map key xs else map key xs @ [key x])"
  by (induction xs) (auto simp: upsert_Nil upsert_Cons)

lemma distinct_upsert:
  "distinct (map key xs) \<Longrightarrow> distinct (map key (upsert key x xs))"
  by (simp add: keys_upsert)

lemma mapGet_mapSet: "mapGet k' (mapSet k v m) = (if k' = k then Some v else mapGet k' m)"
  by (simp add: mapGet_def map_of_mapSet)

lemma ex_recorded_eval:
  "storedRecordingBuffers ex_recorded =
     [\<lparr>buf_tabId = 1, sessionId = ''rec-u'', buf_steps = [ex_step ''s1''],
       buf_startedAt = ''2024-01-01T00:00:00Z''\<rparr>] \<and>
   recordingBuffers ex_recorded =
     [(1, \<lparr>buf_tabId = 1, sessionId = ''rec-u'', buf_steps = [ex_step ''s1''],
           buf_startedAt = ''2024-01-01T00:00:00Z''\<rparr>)] \<and>
   trace ex_recorded = [TabsQuery, TabNotify 1 StartRecordingMsg]"
  by (simp add: ex_recorded_def handleRecordStep_def handleStartRecording_def getActiveTabId_def
        randomId_def nowIso_def upsertRecordingBuffer_def upsert_def mapGet_def
        ex_env_def ex_world_def Let_def)

text \<open>
  Claim C6, as stated, fails. In \<open>ex_recorded\<close> tab 1 has a buffer with one recorded
  step. Starting a recording again is accepted, and afterwards the buffer of tab 1, in
  storage and in memory, has no steps.
\<close>

theorem handleStartRecording_overwrites:
  "\<not> spec_startKeepsSteps ex_env ex_recorded \<and>
   map buf_steps (storedRecordingBuffers ex_recorded) = [[ex_step ''s1'']] \<and>
   fst (handleStartRecording ex_env ex_recorded) = Inr (RespState True) \<and>
   map buf_steps (storedRecordingBuffers (snd (handleStartRecording ex_env ex_recorded))) = [[]] \<and>
   map buf_steps (map snd (recordingBuffers (snd (handleStartRecording ex_env ex_recorded)))) = [[]]"
  by (simp add: spec_startKeepsSteps_def ex_recorded_eval handleStartRecording_def
        getActiveTabId_def getRecordingBuffer_def randomId_def nowIso_def
        upsertRecordingBuffer_def upsert_def mapGet_def ex_env_def Let_def)

text \<open>
  Claim C6, amended. When the active tab is found, \<open>handleStartRecording\<close> is accepted
  and the tab's buffer, in storage and in memory, is a fresh one without steps, whatever
  was there before; the buffers of other tabs are untouched; and if no two stored buffers
  (no two entries of the in-memory map) had the same tab before, none have afterwards.
\<close>

theorem handleStartRecording_fresh:
  assumes tab: "fst (getActiveTabId env w) = Inr tabId"
  shows "fst (handleStartRecording env w) = Inr (RespState True) \<and>
    getRecordingBuffer tabId (snd (handleStartRecording env w)) =
      Some \<lparr>buf_tabId = tabId, sessionId = ''rec-'' @ uuid env (randomReads w), buf_steps = [],
            buf_startedAt = clock env (clockReads w)\<rparr> \<and>
    mapGet tabId (recordingBuffers (snd (handleStartRecording env w))) =
      Some \<lparr>buf_tabId = tabId, sessionId = ''rec-'' @ uuid env (randomReads w), buf_steps = [],
            buf_startedAt = clock env (clockReads w)\<rparr> \<and>
    (other \<noteq> tabId \<longrightarrow>
       getRecordingBuffer other (snd (handleStartRecording env w)) = getRecordingBuffer other w \<and>
       mapGet other (recordingBuffers (snd (handleStartRecording env w)))
         = mapGet other (recordingBuffers w)) \<and>
    (distinct (map buf_tabId (storedRecordingBuffers w)) \<longrightarrow>
       distinct (map buf_tabId (storedRecordingBuffers (snd (handleStartRecording env w))))) \<and>
    (distinct (map fst (recordingBuffers w)) \<longrightarrow>
       distinct (map fst (recordingBuffers (snd (handleStartRecording env w)))))"
proof -
  obtain w1 where g: "getActiveTabId env w = (Inr tabId, w1)"
    using tab by (cases "getActiveTabId env w") auto
  have w1: "w1 = w\<lparr>trace := trace w @ [TabsQuery]\<rparr>"
    using g by (rule getActiveTabId_world)
  let ?b = "\<lparr>buf_tabId = tabId, sessionId = ''rec-'' @ uuid env (randomReads w), buf_steps = [],
            buf_startedAt = clock env (clockReads w)\<rparr>"
  have run: "handleStartRecording env w =
      (Inr (RespState True),
       w\<lparr>trace := trace w @ [TabsQuery, TabNotify tabId StartRecordingMsg],
         randomReads := Suc (randomReads w), clockReads := Suc (clockReads w),
         recordingBuffers := mapSet tabId ?b (recordingBuffers w),
         storedRecordingBuffers := upsert buf_tabId ?b (storedRecordingBuffers w)\<rparr>)"
    using g by (simp add: handleStartRecording_def w1 randomId_def nowIso_def
                  upsertRecordingBuffer_def Let_def)
  show ?thesis
    unfolding run
    by (simp add: getRecordingBuffer_def find_upsert_same find_upsert_other mapGet_mapSet
          distinct_upsert distinct_mapSet)
qed

theorem handleStartRecording_fresh_witness:
  "fst (getActiveTabId ex_env ex_recorded) = Inr 1 \<and>
   map_option buf_steps (getRecordingBuffer 1 ex_recorded) = Some [ex_step ''s1''] \<and>
   map_option buf_steps (getRecordingBuffer 1 (snd (handleStartRecording ex_env ex_recorded)))
     = Some [] \<and>
   distinct (map buf_tabId (storedRecordingBuffers (snd (handleStartRecording ex_env ex_recorded))))"
proof -
  have t: "fst (getActiveTabId ex_env ex_recorded) = Inr 1"
    by (simp add: getActiveTabId_def ex_env_def)
  have d: "distinct (map buf_tabId (storedRecordingBuffers ex_recorded))"
    by (simp add: ex_recorded_eval)
  have b: "map_option buf_steps (getRecordingBuffer 1 ex_recorded) = Some [ex_step ''s1'']"
    by (simp add: getRecordingBuffer_def ex_recorded_eval)
  show ?thesis
    using t b d handleStartRecording_fresh [OF t, of 2] by simp
qed

section \<open>Resolving a locator (content/executor.ts)\<close>

lemma xpathQueries_append [simp]: "xpathQueries (h @ k) = xpathQueries h @ xpathQueries k"
  by (simp add: xpathQueries_def)

lemma xpathQueries_Nil [simp]: "xpathQueries [] = []"
  by (simp add: xpathQueries_def)

lemma xpathQueries_Cons:
  "xpathQueries (e # h) = (case e of Evaluate x \<Rightarrow> [x] | _ \<Rightarrow> []) @ xpathQueries h"
  by (simp add: xpathQueries_def)

lemma resolveElement_css:
  "truthy (css s) \<Longrightarrow> resolveElement page (Some s) h = findByCss page (the (css s)) h"
  by (simp add: resolveElement_def)

lemma loop_css_only:
  "truthy (css s) \<Longrightarrow>
   xpathQueries (snd (waitForElement_loop page (Some s) attempts ms i h)) = xpathQueries h"
proof (induction page "Some s" attempts ms i h rule: waitForElement_loop.induct)
  case (1 page attempts intervalMs i h)
  show ?case
  proof (cases "i < attempts")
    case False
    then show ?thesis by (simp add: waitForElement_loop.simps)
  next
    case True
    obtain r h1 where r: "resolveElement page (Some s) h = (r, h1)"
      by (cases "resolveElement page (Some s) h") auto
    then have h1: "h1 = h @ [QuerySelector (the (css s))]"
      using "1.prems" by (auto simp: resolveElement_css findByCss_def)
    show ?thesis
    proof (cases r)
      case (Some el)
      then show ?thesis
        using True r h1
        by (subst waitForElement_loop.simps) (simp add: xpathQueries_Cons)
    next
      case None
      from "1.hyps" [OF True r [symmetric] None "1.prems"]
      show ?thesis
        using True r h1 None
        by (subst waitForElement_loop.simps)
           (auto simp: xpathQueries_Cons waitMs_def split: if_splits)
    qed
  qed
qed

lemma loop_never_found:
  "truthy (css s) \<Longrightarrow>
   \<forall>h'. querySelector page h' (the (css s)) \<noteq> Inr (Some el) \<Longrightarrow>
   fst (waitForElement_loop page (Some s) attempts ms i h) \<noteq> Some el"
proof (induction page "Some s" attempts ms i h rule: waitForElement_loop.induct)
  case (1 page attempts intervalMs i h)
  show ?case
  proof (cases "i < attempts")
    case False
    then show ?thesis by (simp add: waitForElement_loop.simps)
  next
    case True
    obtain r h1 where r: "resolveElement page (Some s) h = (r, h1)"
      by (cases "resolveElement page (Some s) h") auto
    have nr: "r \<noteq> Some el"
      using r "1.prems" by (auto simp: resolveElement_css findByCss_def split: sum.splits)
    show ?thesis
    proof (cases r)
      case (Some e2)
      then show ?thesis
        using True r nr by (subst waitForElement_loop.simps) simp
    next
      case None
      from "1.hyps" [OF True r [symmetric] None "1.prems"]
      show ?thesis
        using True r None by (subst waitForElement_loop.simps) simp
    qed
  qed
qed

lemma domCalls_xpathQueries:
  "xpathQueries evs = [] \<Longrightarrow> xpathQueries (snd (domCalls page evs h)) = xpathQueries h"
proof (induction evs arbitrary: h)
  case Nil
  then show ?case by simp
next
  case (Cons ev evs)
  then have e: "xpathQueries [ev] = []" "xpathQueries evs = []"
    by (auto simp: xpathQueries_Cons)
  show ?case
    using Cons.IH [OF e(2)] e(1)
    by (auto simp: domCall_def split: option.splits)
qed





lemma runStep_xpathQueries:
  assumes "selector step = Some s" and "truthy (css s)"
  shows "xpathQueries (snd (runStep page step h)) = xpathQueries h"
proof -
  define h0 where "h0 = (case step_waitMs step of None \<Rightarrow> h
                         | Some ms \<Rightarrow> if ms \<noteq> 0 \<and> ms > 0 then waitMs ms h else h)"
  have h0: "xpathQueries h0 = xpathQueries h"
    by (auto simp: h0_def waitMs_def xpathQueries_Cons split: option.splits)
  have w: "xpathQueries (snd (case waitForElement page (Some s) a ms h0 of
                      (None, h1) \<Rightarrow> (e, h1)
                    | (Some el, h1) \<Rightarrow> f el h1)) = xpathQueries h0"
    if f: "\<And>el h1. xpathQueries (snd (f el h1)) = xpathQueries h1"
    for a ms e and f :: "nat \<Rightarrow> pageEvent list \<Rightarrow> (error + unit) \<times> pageEvent list"
  proof -
    obtain r h1 where r: "waitForElement page (Some s) a ms h0 = (r, h1)"
      by (cases "waitForElement page (Some s) a ms h0") auto
    have k1: "xpathQueries h1 = xpathQueries h0"
      using loop_css_only [OF assms(2), of page a ms 0 h0] r
      by (simp add: waitForElement_def)
    show ?thesis
      using r k1 f by (cases r) simp_all
  qed
  have d: "xpathQueries evs = [] \<Longrightarrow> xpathQueries (snd (domCalls page evs h1)) = xpathQueries h1"
    for evs h1 by (rule domCalls_xpathQueries)
  have body: "xpathQueries (snd (runStep page step h)) = xpathQueries h0"
  proof (cases "step_type step")
    case Click
    then show ?thesis
      using w [of "\<lambda>el h1. domCalls page [ClickEl el] h1"] assms(1)
      by (simp add: runStep_def h0_def [symmetric] Let_def d xpathQueries_Cons
               del: domCalls.simps)
  next
    case Input
    then show ?thesis
      using w [of "\<lambda>el h1. domCalls page [FocusEl el,
                     SetValue el (case step_value step of None \<Rightarrow> [] | Some v \<Rightarrow> v),
                     DispatchEvent el ''input'', DispatchEvent el ''change''] h1"] assms(1)
      by (simp add: runStep_def h0_def [symmetric] Let_def d xpathQueries_Cons
               del: domCalls.simps)
  next
    case Wait
    then show ?thesis
      by (simp add: runStep_def h0_def [symmetric] Let_def waitMs_def xpathQueries_Cons)
  next
    case Submit
    then show ?thesis
      using w [of "\<lambda>el h1. if isForm page h1 el then domCalls page [RequestSubmit el] h1
                     else domCalls page [DispatchEvent el ''submit''] h1"] assms(1)
      by (simp add: runStep_def h0_def [symmetric] Let_def d xpathQueries_Cons
               del: domCalls.simps)
  next
    case CustomJs
    then show ?thesis
      by (auto simp: runStep_def h0_def [symmetric] Let_def d xpathQueries_Cons
               simp del: domCalls.simps split: option.splits)
  next
    case (UnknownType t)
    then show ?thesis
      by (simp add: runStep_def h0_def [symmetric] Let_def)
  qed
  from h0 body show ?thesis by simp
qed

lemma runStep_click_not_found:
  assumes "selector step = Some s" and "truthy (css s)" and "step_type step = Click"
      and never: "\<forall>h' el. querySelector page h' (the (css s)) \<noteq> Inr (Some el)"
  shows "fst (runStep page step h) =
           Inl (Error (''Element not found for click. Selector: '' @ the (css s)))"
proof -
  have n: "fst (waitForElement page (Some s) a ms h0) = None" for a ms h0
  proof (cases "fst (waitForElement page (Some s) a ms h0)")
    case None
    then show ?thesis .
  next
    case (Some el)
    moreover have "fst (waitForElement_loop page (Some s) a ms 0 h0) \<noteq> Some el"
      using never by (intro loop_never_found [OF assms(2)]) simp
    ultimately show ?thesis by (simp add: waitForElement_def)
  qed
  have c: "(case waitForElement page (Some s) a ms h0 of
              (None, h1) \<Rightarrow> (e, h1) | (Some el, h1) \<Rightarrow> f el h1)
           = (e, snd (waitForElement page (Some s) a ms h0))"
    for a ms h0 and e :: "error + unit" and f
    using n [of a ms h0] by (cases "waitForElement page (Some s) a ms h0") auto
  show ?thesis
    using assms(1,2,3) by (simp add: runStep_def Let_def c selectorStr_def)
qed

lemma attemptAt_Suc:
  "attemptAt h c ms (Suc j) = attemptAt (h @ [QuerySelector c, Sleep ms]) c ms j"
  by (simp add: attemptAt_def)

lemma loop_not_found:
  assumes css: "truthy (css s)"
  shows "n = attempts - i - 1 \<Longrightarrow> i < attempts \<Longrightarrow>
         \<forall>j < attempts - i. foundAt page (attemptAt h (the (css s)) ms j) (the (css s)) = None \<Longrightarrow>
         waitForElement_loop page (Some s) attempts ms i h =
           (None, attemptAt h (the (css s)) ms n @ [QuerySelector (the (css s))])"
proof (induction n arbitrary: i h)
  case 0
  then have last: "\<not> i + 1 < attempts" "\<not> Suc i < attempts" by simp_all
  from 0 have "foundAt page (attemptAt h (the (css s)) ms 0) (the (css s)) = None" by simp
  then have r: "resolveElement page (Some s) h = (None, h @ [QuerySelector (the (css s))])"
    using css by (simp add: resolveElement_def findByCss_def foundAt_def attemptAt_def)
  show ?case
    using 0(2) last r
    by (subst waitForElement_loop.simps) (simp add: waitForElement_loop.simps attemptAt_def)
next
  case (Suc n)
  then have more: "i + 1 < attempts" "Suc i < attempts" "n = attempts - Suc i - 1" by simp_all
  from Suc.prems have "foundAt page (attemptAt h (the (css s)) ms 0) (the (css s)) = None" by simp
  then have r: "resolveElement page (Some s) h = (None, h @ [QuerySelector (the (css s))])"
    using css by (simp add: resolveElement_def findByCss_def foundAt_def attemptAt_def)
  have nxt: "\<forall>j < attempts - Suc i.
               foundAt page (attemptAt (h @ [QuerySelector (the (css s)), Sleep ms]) (the (css s)) ms j)
                 (the (css s)) = None"
  proof (intro allI impI)
    fix j assume "j < attempts - Suc i"
    then have "Suc j < attempts - i" by simp
    with Suc.prems(3) show "foundAt page (attemptAt (h @ [QuerySelector (the (css s)), Sleep ms])
                               (the (css s)) ms j) (the (css s)) = None"
      unfolding attemptAt_Suc [symmetric] by blast
  qed
  from Suc.IH [OF more(3) more(2) nxt]
  show ?case
    using Suc.prems(2) more r
    by (subst waitForElement_loop.simps) (simp add: waitMs_def attemptAt_Suc)
qed

lemma waitForElement_not_found:
  assumes "truthy (css s)"
      and "\<forall>j < 5. foundAt page (attemptAt h (the (css s)) 500 j) (the (css s)) = None"
  shows "waitForElement page (Some s) 5 500 h =
           (None, attemptAt h (the (css s)) 500 4 @ [QuerySelector (the (css s))])"
  using loop_not_found [OF assms(1), of 4 5 0 page h 500] assms(2)
  by (simp add: waitForElement_def)

lemma runStep_not_found:
  assumes sel: "selector step = Some s" and css: "truthy (css s)"
      and none: "\<forall>j < 5. foundAt page (attemptAt (afterDelay step h) (the (css s)) 500 j) (the (css s)) = None"
  shows "step_type step = Click \<Longrightarrow>
           runStep page step h =
             (Inl (Error (''Element not found for click. Selector: '' @ the (css s))),
              attemptAt (afterDelay step h) (the (css s)) 500 4 @ [QuerySelector (the (css s))])"
    and "step_type step = Input \<Longrightarrow>
           runStep page step h =
             (Inl (Error (''Element not found for input. Selector: '' @ the (css s))),
              attemptAt (afterDelay step h) (the (css s)) 500 4 @ [QuerySelector (the (css s))])"
    and "step_type step = Submit \<Longrightarrow>
           runStep page step h =
             (Inl (Error ''Element not found for submit''),
              attemptAt (afterDelay step h) (the (css s)) 500 4 @ [QuerySelector (the (css s))])"
proof -
  have h0: "(case step_waitMs step of None \<Rightarrow> h
             | Some ms \<Rightarrow> if ms \<noteq> 0 \<and> ms > 0 then waitMs ms h else h) = afterDelay step h"
    by (auto simp: afterDelay_def waitMs_def split: option.splits)
  note w = waitForElement_not_found [OF css none]
  show "step_type step = Click \<Longrightarrow>
           runStep page step h =
             (Inl (Error (''Element not found for click. Selector: '' @ the (css s))),
              attemptAt (afterDelay step h) (the (css s)) 500 4 @ [QuerySelector (the (css s))])"
    using sel css by (simp add: runStep_def Let_def h0 w selectorStr_def)
  show "step_type step = Input \<Longrightarrow>
           runStep page step h =
             (Inl (Error (''Element not found for input. Selector: '' @ the (css s))),
              attemptAt (afterDelay step h) (the (css s)) 500 4 @ [QuerySelector (the (css s))])"
    using sel css by (simp add: runStep_def Let_def h0 w selectorStr_def)
  show "step_type step = Submit \<Longrightarrow>
           runStep page step h =
             (Inl (Error ''Element not found for submit''),
              attemptAt (afterDelay step h) (the (css s)) 500 4 @ [QuerySelector (the (css s))])"
    using sel css by (simp add: runStep_def Let_def h0 w selectorStr_def)
qed

text \<open>
  Claim C2, as stated, fails. On \<open>ex_page\<close> no CSS selector resolves and every XPath
  resolves to element 7. The click step \<open>ex_clickBoth\<close> carries both a CSS selector and
  an XPath: each resolution attempt queries the CSS selector only, the XPath is never
  evaluated, and the step fails with \<open>Element not found\<close>. The same step without the
  CSS selector succeeds through its XPath.
\<close>

theorem resolveElement_no_xpath_fallback:
  "resolveElement ex_page (Some ex_selector) [] \<noteq> spec_resolveElement ex_page (Some ex_selector) [] \<and>
   resolveElement ex_page (Some ex_selector) [] = (None, [QuerySelector ''#gone'']) \<and>
   fst (runStep ex_page ex_clickBoth []) =
     Inl (Error ''Element not found for click. Selector: #gone'') \<and>
   xpathQueries (snd (runStep ex_page ex_clickBoth [])) = [] \<and>
   fst (runStep ex_page ex_clickXPathOnly []) = Inr ()"
proof -
  have a: "resolveElement ex_page (Some ex_selector) [] = (None, [QuerySelector ''#gone''])"
    by (simp add: resolveElement_def truthy_def findByCss_def ex_page_def ex_selector_def)
  have b: "spec_resolveElement ex_page (Some ex_selector) [] =
             (Some 7, [QuerySelector ''#gone'', Evaluate ''/html[1]/body[1]/button[1]''])"
    by (simp add: spec_resolveElement_def truthy_def findByCss_def findByXPath_def ex_page_def
          ex_selector_def)
  have s: "selector ex_clickBoth = Some ex_selector" "truthy (css ex_selector)"
          "step_type ex_clickBoth = Click" "the (css ex_selector) = ''#gone''"
    by (simp_all add: ex_clickBoth_def ex_step_def ex_selector_def truthy_def)
  have c: "fst (runStep ex_page ex_clickBoth []) =
             Inl (Error ''Element not found for click. Selector: #gone'')"
    using runStep_click_not_found [OF s(1,2,3), of ex_page "[]"] s(4)
    by (simp add: ex_page_def)
  have d: "xpathQueries (snd (runStep ex_page ex_clickBoth [])) = []"
    using runStep_xpathQueries [OF s(1,2), of ex_page "[]"] by simp
  have e: "fst (runStep ex_page ex_clickXPathOnly []) = Inr ()"
    by (simp add: runStep_def waitForElement_def waitForElement_loop.simps resolveElement_def
          truthy_def findByXPath_def domCall_def ex_clickXPathOnly_def ex_step_def
          ex_selector_def ex_page_def Let_def)
  from a b c d e show ?thesis by simp
qed

text \<open>
  Claim C2, amended. When the locator has a non-empty CSS selector, every resolution
  attempt is the CSS query alone: neither \<open>waitForElement\<close> nor the step as a whole
  evaluates an XPath. A click, input or submit step whose CSS selector finds nothing at
  each of the five attempts, 500ms apart, fails with the \<open>Element not found\<close> error of
  its type after the fifth query, whatever the XPath would resolve to. The XPath is
  consulted exactly when the CSS selector is absent or empty.
\<close>

theorem resolveElement_css_or_xpath:
  "(truthy (css s) \<longrightarrow>
      resolveElement page (Some s) h = findByCss page (the (css s)) h \<and>
      xpathQueries (snd (waitForElement page (Some s) attempts ms h)) = xpathQueries h \<and>
      (selector step = Some s \<longrightarrow> xpathQueries (snd (runStep page step h)) = xpathQueries h) \<and>
      (selector step = Some s \<and>
       (\<forall>i < 5. foundAt page (attemptAt (afterDelay step h) (the (css s)) 500 i) (the (css s)) = None) \<longrightarrow>
         (step_type step = Click \<longrightarrow>
            runStep page step h =
              (Inl (Error (''Element not found for click. Selector: '' @ the (css s))),
               attemptAt (afterDelay step h) (the (css s)) 500 4 @ [QuerySelector (the (css s))])) \<and>
         (step_type step = Input \<longrightarrow>
            runStep page step h =
              (Inl (Error (''Element not found for input. Selector: '' @ the (css s))),
               attemptAt (afterDelay step h) (the (css s)) 500 4 @ [QuerySelector (the (css s))])) \<and>
         (step_type step = Submit \<longrightarrow>
            runStep page step h =
              (Inl (Error ''Element not found for submit''),
               attemptAt (afterDelay step h) (the (css s)) 500 4 @ [QuerySelector (the (css s))])))) \<and>
   (\<not> truthy (css s) \<longrightarrow> resolveElement page (Some s) h = findByXPath page (xpath s) h)"
proof -
  have A: "xpathQueries (snd (waitForElement page (Some s) attempts ms h)) = xpathQueries h"
    if "truthy (css s)"
    using loop_css_only [OF that, of page attempts ms 0 h] by (simp add: waitForElement_def)
  have R: "resolveElement page (Some s) h = findByCss page (the (css s)) h" if "truthy (css s)"
    using that by (simp add: resolveElement_def)
  have X: "resolveElement page (Some s) h = findByXPath page (xpath s) h" if "\<not> truthy (css s)"
    using that by (simp add: resolveElement_def)
  show ?thesis
    using A R X runStep_xpathQueries [of step s page h] runStep_not_found [of step s page h]
    by blast
qed

theorem resolveElement_css_or_xpath_witness:
  "truthy (css ex_selector) \<and> \<not> truthy (css (ex_selector\<lparr>css := Some []\<rparr>)) \<and>
   xpathQueries (snd (runStep ex_page ex_clickBoth [])) = [] \<and>
   runStep ex_page ex_clickBoth [] =
     (Inl (Error ''Element not found for click. Selector: #gone''),
      [QuerySelector ''#gone'', Sleep 500, QuerySelector ''#gone'', Sleep 500,
       QuerySelector ''#gone'', Sleep 500, QuerySelector ''#gone'', Sleep 500,
       QuerySelector ''#gone'']) \<and>
   fst (runStep ex_page (ex_clickBoth\<lparr>step_type := Input\<rparr>) []) =
     Inl (Error ''Element not found for input. Selector: #gone'') \<and>
   fst (runStep ex_page (ex_clickBoth\<lparr>step_type := Submit\<rparr>) []) =
     Inl (Error ''Element not found for submit'') \<and>
   resolveElement ex_page (Some (ex_selector\<lparr>css := Some []\<rparr>)) [] =
     (Some 7, [Evaluate ''/html[1]/body[1]/button[1]''])"
proof -
  have s: "selector ex_clickBoth = Some ex_selector" "truthy (css ex_selector)"
          "step_type ex_clickBoth = Click" "the (css ex_selector) = ''#gone''"
          "\<not> truthy (css (ex_selector\<lparr>css := Some []\<rparr>))"
          "step_waitMs ex_clickBoth = None"
    by (simp_all add: ex_clickBoth_def ex_step_def ex_selector_def truthy_def)
  have n: "foundAt ex_page h' c = None" for h' c
    by (simp add: foundAt_def ex_page_def)
  have d: "afterDelay (ex_clickBoth\<lparr>step_type := t\<rparr>) [] = []" "afterDelay ex_clickBoth [] = []" for t
    using s(6) by (simp_all add: afterDelay_def)
  have x: "findByXPath ex_page (xpath (ex_selector\<lparr>css := Some []\<rparr>)) [] =
             (Some 7, [Evaluate ''/html[1]/body[1]/button[1]''])"
    by (simp add: findByXPath_def ex_selector_def ex_page_def)
  show ?thesis
    using s n d x
      resolveElement_css_or_xpath [of ex_selector ex_page "[]" 5 500 ex_clickBoth]
      resolveElement_css_or_xpath [of ex_selector ex_page "[]" 5 500 "ex_clickBoth\<lparr>step_type := Input\<rparr>"]
      resolveElement_css_or_xpath [of ex_selector ex_page "[]" 5 500 "ex_clickBoth\<lparr>step_type := Submit\<rparr>"]
      resolveElement_css_or_xpath [of "ex_selector\<lparr>css := Some []\<rparr>" ex_page "[]" 5 500 ex_clickBoth]
    by (simp add: attemptAt_def eval_nat_numeral xpathQueries_def)
qed

section \<open>Delays of a step (content/executor.ts)\<close>




section \<open>Synthesizing a locator (content/selectors.ts)\<close>

lemma join_empty: "join [] xs = concat xs"
  by (induction "[] :: string" xs rule: join.induct) auto

lemma chain_snoc: "chain (q @ [i]) = (q @ [i]) # chain q"
  by (induction q) (auto simp: Let_def)

lemma chain_nonempty: "p \<noteq> [] \<Longrightarrow> chain p = p # chain (butlast p)"
  using chain_snoc [of "butlast p" "last p"] by simp

lemma nodeAt_snoc:
  "nodeAt n (q @ [i]) = Some el \<Longrightarrow> \<exists>parent. nodeAt n q = Some parent"
proof (induction q arbitrary: n)
  case Nil
  then show ?case by (cases n) (auto split: if_splits)
next
  case (Cons j q)
  then show ?case by (auto split: if_splits)
qed

lemma nodeAt_butlast:
  "nodeAt n p = Some el \<Longrightarrow> p \<noteq> [] \<Longrightarrow> \<exists>parent. nodeAt n (butlast p) = Some parent"
  using nodeAt_snoc [of n "butlast p" "last p" el] by simp

lemma fallbackCss_loop_levels:
  "nodeAt doc p = Some el \<Longrightarrow>
   fallbackCss_loop esc doc (Some p) parts =
     map (\<lambda>q. fallbackCss_part esc doc q (the (nodeAt doc q)))
         (rev (take (5 - length parts) (takeWhile (\<lambda>q. Some q \<noteq> body doc) (chain p))))
     @ parts"
proof (induction p arbitrary: el parts rule: rev_induct)
  case Nil
  show ?case
    using Nil
    by (subst fallbackCss_loop.simps)
       (auto simp: parentElement_def fallbackCss_loop.simps [of esc doc None]
             simp flip: Suc_diff_Suc split: if_splits)
next
  case (snoc i q)
  obtain parent where par: "nodeAt doc q = Some parent"
    using nodeAt_snoc [OF snoc.prems] by blast
  show ?case
  proof (cases "Some (q @ [i]) \<noteq> body doc \<and> length parts < 5")
    case False
    then show ?thesis
      using snoc.prems
      by (subst fallbackCss_loop.simps) (auto simp: chain_snoc)
  next
    case True
    then obtain k where k: "5 - length parts = Suc k" "5 - length (fallbackCss_part esc doc (q @ [i]) el # parts) = k"
      by (cases "5 - length parts") auto
    have "fallbackCss_loop esc doc (Some (q @ [i])) parts =
            fallbackCss_loop esc doc (Some q) (fallbackCss_part esc doc (q @ [i]) el # parts)"
      using True snoc.prems
      by (subst fallbackCss_loop.simps) (simp add: parentElement_def)
    also have "\<dots> = map (\<lambda>q. fallbackCss_part esc doc q (the (nodeAt doc q)))
         (rev (take k (takeWhile (\<lambda>q. Some q \<noteq> body doc) (chain q))))
         @ fallbackCss_part esc doc (q @ [i]) el # parts"
      using snoc.IH [OF par, of "fallbackCss_part esc doc (q @ [i]) el # parts"] k(2) by simp
    finally show ?thesis
      using True k(1) snoc.prems by (simp add: chain_snoc)
  qed
qed

lemma fallbackCss_part_eq:
  "fallbackCss_part esc doc q c =
     toLowerCase (tagName c) @ concat (map (\<lambda>k. ''.'' @ esc k) (classFragments c)) @
     (if 1 < length (siblingsOf doc q)
      then '':nth-child('' @ natToString (last q + 1) @ '')'' else [])"
  by (auto simp: fallbackCss_part_def classFragments_def siblingsOf_def join_empty Let_def
           split: option.splits)

lemma ex_nodes:
  "nodeAt ex_doc ex_span = Some ex_spanNode"
  "nodeAt ex_doc ex_div = Some ex_divNode"
  "nodeAt ex_doc ex_button = Some ex_buttonNode"
  "nodeAt ex_doc ex_input = Some ex_inputNode"
  by (simp_all add: ex_doc_def ex_span_def ex_div_def ex_button_def ex_input_def
        ex_divNode_def ex_spanNode_def ex_buttonNode_def ex_inputNode_def)

lemma ex_body: "body ex_doc = Some [1]"
  by (simp add: ex_doc_def body_def toLowerCase_def lowerChar_def ex_divNode_def
        ex_buttonNode_def ex_inputNode_def)

lemma ex_levels: "levels ex_doc ex_span = [ex_div, ex_span]"
  by (simp add: levels_def ex_body ex_span_def ex_div_def Let_def)

lemma ex_numbers: "natToString (Suc 0) = ''1''"
  by (simp add: natToString.simps)

lemma ex_parts:
  "fallbackCss_part ex_esc ex_doc ex_span ex_spanNode = ''span:nth-child(1)''"
  "fallbackCss_part ex_esc ex_doc ex_div ex_divNode = ''div.a.b.c:nth-child(1)''"
  "spec_fallbackCss_part ex_esc ex_doc ex_span ex_spanNode = ''span''"
  "spec_fallbackCss_part ex_esc ex_doc ex_div ex_divNode = ''div.a.b''"
  by (simp_all add: fallbackCss_part_def spec_fallbackCss_part_def parentElement_def
        ex_doc_def ex_span_def ex_div_def ex_divNode_def ex_spanNode_def ex_buttonNode_def
        ex_inputNode_def getAttribute_def toLowerCase_def lowerChar_def ex_esc_def ex_numbers
        Let_def)

lemma ex_plain:
  "hasUniqueId ex_esc ex_doc ex_spanNode = None" "dataTestId ex_spanNode = None"
  "hasUniqueId ex_esc ex_doc ex_buttonNode = None" "hasUniqueId ex_esc ex_doc ex_inputNode = None"
  by (simp_all add: hasUniqueId_def dataTestId_def getAttribute_def truthy_def Let_def
        ex_spanNode_def ex_buttonNode_def ex_inputNode_def)

text \<open>
  Claim C4, as stated, fails. The \<open>span\<close> in \<open>ex_doc\<close> has no id and no test
  identifier; its parent \<open>div\<close> has three classes and sits beside a \<open>button\<close> and an
  \<open>input\<close>, the \<open>span\<close> beside an \<open>em\<close>. The synthesized selector names all three
  classes, gives both levels a position although neither element has a sibling with its
  own tag, and joins the levels with the child combinator.
\<close>

theorem fallbackCss_not_as_specified:
  "fallbackCss ex_esc ex_doc ex_span = ''div.a.b.c:nth-child(1) > span:nth-child(1)'' \<and>
   spec_fallbackCss ex_esc ex_doc ex_span = ''div.a.b span'' \<and>
   fallbackCss ex_esc ex_doc ex_span \<noteq> spec_fallbackCss ex_esc ex_doc ex_span \<and>
   map_option css (buildSelectorInfo ex_esc ex_trimSlice ex_doc ex_span)
     = Some (Some ''div.a.b.c:nth-child(1) > span:nth-child(1)'')"
proof -
  have a: "fallbackCss ex_esc ex_doc ex_span = ''div.a.b.c:nth-child(1) > span:nth-child(1)''"
    using fallbackCss_loop_levels [OF ex_nodes(1), of ex_esc "[]"]
    by (simp add: fallbackCss_def ex_levels [unfolded levels_def] ex_nodes ex_parts)
  have b: "spec_fallbackCss ex_esc ex_doc ex_span = ''div.a.b span''"
    by (simp add: spec_fallbackCss_def ex_levels ex_nodes ex_parts)
  have c: "map_option css (buildSelectorInfo ex_esc ex_trimSlice ex_doc ex_span)
             = Some (Some (fallbackCss ex_esc ex_doc ex_span))"
    by (simp add: buildSelectorInfo_def ex_nodes ex_plain truthy_def)
  from a b c show ?thesis by simp
qed

text \<open>
  Claim C4, amended. For an element of the document without a unique id and without a
  test identifier, the primary selector is the structural fallback. It walks from the
  element towards the root, stops below the body and after at most five levels, and at
  each level emits the lower-case tag name, one fragment for every class name, and
  \<open>:nth-child(i)\<close> with the element's position among all element children of its parent
  whenever the parent has more than one element child. The levels are joined with
  \<open>" > "\<close>, the child combinator.
\<close>

theorem fallbackCss_structure:
  assumes "nodeAt doc p = Some el"
  shows "fallbackCss esc doc p =
           join '' > '' (map (\<lambda>q. fallbackCss_part esc doc q (the (nodeAt doc q))) (levels doc p)) \<and>
         length (levels doc p) \<le> 5 \<and>
         fallbackCss_part esc doc q c =
           toLowerCase (tagName c) @ concat (map (\<lambda>k. ''.'' @ esc k) (classFragments c)) @
           (if 1 < length (siblingsOf doc q)
            then '':nth-child('' @ natToString (last q + 1) @ '')'' else []) \<and>
         (hasUniqueId esc doc el = None \<and> dataTestId el = None \<longrightarrow>
            map_option css (buildSelectorInfo esc trimSlice doc p) = Some (Some (fallbackCss esc doc p)))"
proof -
  have a: "fallbackCss esc doc p =
           join '' > '' (map (\<lambda>q. fallbackCss_part esc doc q (the (nodeAt doc q))) (levels doc p))"
    using fallbackCss_loop_levels [OF assms, of esc "[]"]
    by (simp add: fallbackCss_def levels_def)
  have b: "length (levels doc p) \<le> 5"
    by (simp add: levels_def)
  have c: "hasUniqueId esc doc el = None \<and> dataTestId el = None \<longrightarrow>
            map_option css (buildSelectorInfo esc trimSlice doc p) = Some (Some (fallbackCss esc doc p))"
    using assms by (simp add: buildSelectorInfo_def truthy_def)
  from a b c fallbackCss_part_eq [of esc doc q c] show ?thesis by blast
qed

theorem fallbackCss_structure_witness:
  "nodeAt ex_doc ex_span = Some ex_spanNode \<and>
   levels ex_doc ex_span = [ex_div, ex_span] \<and>
   fallbackCss ex_esc ex_doc ex_span =
     join '' > '' [''div.a.b.c:nth-child(1)'', ''span:nth-child(1)''] \<and>
   map_option css (buildSelectorInfo ex_esc ex_trimSlice ex_doc ex_span)
     = Some (Some (fallbackCss ex_esc ex_doc ex_span))"
proof -
  note T = fallbackCss_structure [OF ex_nodes(1), of ex_esc ex_span ex_spanNode]
  have a: "fallbackCss ex_esc ex_doc ex_span =
     join '' > '' [''div.a.b.c:nth-child(1)'', ''span:nth-child(1)'']"
    using T [THEN conjunct1] by (simp add: ex_levels ex_nodes ex_parts del: join.simps)
  have b: "map_option css (buildSelectorInfo ex_esc ex_trimSlice ex_doc ex_span)
     = Some (Some (fallbackCss ex_esc ex_doc ex_span))"
    using T ex_plain(1,2) by blast
  from a b ex_nodes(1) ex_levels show ?thesis by blast
qed

text \<open>
  Claim C8. The \<open>button\<close> of \<open>ex_doc\<close> has no id and carries \<open>data-test="save"\<close> but no
  \<open>data-testid\<close>. Its primary selector is \<open>[data-testid="save"]\<close>: an equality on an
  attribute the element does not have. The \<open>input\<close>, which carries
  \<open>data-testid="email"\<close>, gets \<open>[data-testid="email"]\<close>.
\<close>

theorem dataTestId_names_wrong_attribute:
  "getAttribute ex_buttonNode ''data-testid'' = None \<and>
   getAttribute ex_buttonNode ''data-test'' = Some ''save'' \<and>
   map_option css (buildSelectorInfo ex_esc ex_trimSlice ex_doc ex_button)
     = Some (Some (''[data-testid='' @ dq @ ''save'' @ dq @ '']'')) \<and>
   map_option css (buildSelectorInfo ex_esc ex_trimSlice ex_doc ex_input)
     = Some (Some (''[data-testid='' @ dq @ ''email'' @ dq @ '']''))"
proof -
  have a: "getAttribute ex_buttonNode ''data-testid'' = None"
          "getAttribute ex_buttonNode ''data-test'' = Some ''save''"
          "getAttribute ex_inputNode ''data-testid'' = Some ''email''"
    by (simp_all add: getAttribute_def ex_buttonNode_def ex_inputNode_def)
  show ?thesis
    by (simp add: buildSelectorInfo_def ex_nodes ex_plain dataTestId_def a truthy_def Let_def)
qed

section \<open>The conversational execution loop (background/index.ts)\<close>

lemma sentSteps_append: "sentSteps (a @ b) = sentSteps a @ sentSteps b"
  by (simp add: sentSteps_def)

lemma succeededSteps_append:
  "succeededSteps env pre (a @ b) = succeededSteps env pre a @ succeededSteps env (pre @ a) b"
  by (induction a arbitrary: pre) auto

lemma quiet_sentSteps: "quiet tr \<Longrightarrow> sentSteps tr = []"
  by (induction tr) (auto simp: quiet_def sentSteps_def split: event.splits)

lemma quiet_succeededSteps: "quiet tr \<Longrightarrow> succeededSteps env pre tr = []"
  by (induction tr arbitrary: pre) (auto simp: quiet_def split: event.splits)

lemma quiet_append: "quiet (a @ b) = (quiet a \<and> quiet b)"
  by (auto simp: quiet_def)

lemma updateConversation_keeps:
  "trace (updateConversation cid pushed act w) = trace w \<and>
   tasks (updateConversation cid pushed act w) = tasks w \<and>
   recordingBuffers (updateConversation cid pushed act w) = recordingBuffers w \<and>
   storedRecordingBuffers (updateConversation cid pushed act w) = storedRecordingBuffers w"
  by (simp add: updateConversation_def saveConversationState_def Let_def split: option.splits)

lemma pollNavigation_quiet:
  "\<exists>new. trace (snd (pollNavigation env tabId prev n w)) = trace w @ new \<and> quiet new \<and>
         tasks (snd (pollNavigation env tabId prev n w)) = tasks w \<and>
         recordingBuffers (snd (pollNavigation env tabId prev n w)) = recordingBuffers w \<and>
         storedRecordingBuffers (snd (pollNavigation env tabId prev n w)) = storedRecordingBuffers w"
proof (induction env tabId prev n w rule: pollNavigation.induct)
  case (1 env tabId previousUrl waitCount w)
  show ?case
  proof (cases "waitCount < 20")
    case False
    then have step: "pollNavigation env tabId previousUrl waitCount w = (previousUrl, w)"
      by (subst pollNavigation.simps) simp
    show ?thesis
      unfolding step by (simp add: quiet_def)
  next
    case True
    note lt = True
    define w1 where "w1 = setTimeout 500 w"
    obtain r w2 where g: "tabsGet_call env tabId w1 = (r, w2)"
      by (cases "tabsGet_call env tabId w1") auto
    have w2: "w2 = w\<lparr>trace := trace w @ [Timeout 500, TabsGet tabId]\<rparr>"
      using g by (auto simp: tabsGet_call_def w1_def setTimeout_def)
    let ?found = "\<lambda>t. truthy (tab_url t) \<and> the (tab_url t) \<noteq> previousUrl \<and>
                       tab_status t = Some ''complete''"
    show ?thesis
    proof (cases r)
      case (Inl e)
      from "1.IH"(1) [OF lt w1_def g [symmetric] Inl]
      obtain new where n: "trace (snd (pollNavigation env tabId previousUrl (Suc waitCount) w2))
                             = trace w2 @ new" "quiet new"
          "tasks (snd (pollNavigation env tabId previousUrl (Suc waitCount) w2)) = tasks w2"
          "recordingBuffers (snd (pollNavigation env tabId previousUrl (Suc waitCount) w2))
             = recordingBuffers w2"
          "storedRecordingBuffers (snd (pollNavigation env tabId previousUrl (Suc waitCount) w2))
             = storedRecordingBuffers w2"
        by blast
      have step: "pollNavigation env tabId previousUrl waitCount w =
                  pollNavigation env tabId previousUrl (Suc waitCount) w2"
        using lt g Inl
        by (subst pollNavigation.simps) (simp add: w1_def [symmetric] Let_def)
      show ?thesis
        unfolding step using n w2
        by (intro exI [of _ "[Timeout 500, TabsGet tabId] @ new"]) (simp add: quiet_def)
    next
      case (Inr t)
      show ?thesis
      proof (cases "?found t")
        case True
        have step: "pollNavigation env tabId previousUrl waitCount w =
                    (the (tab_url t), setTimeout 2000 w2)"
          using lt g Inr True
          by (subst pollNavigation.simps) (simp add: w1_def [symmetric] Let_def)
        show ?thesis
          unfolding step using w2
          by (intro exI [of _ "[Timeout 500, TabsGet tabId, Timeout 2000]"])
             (simp add: quiet_def setTimeout_def)
      next
        case False
        from "1.IH"(2) [OF lt w1_def g [symmetric] Inr False]
        obtain new where n: "trace (snd (pollNavigation env tabId previousUrl (Suc waitCount) w2))
                               = trace w2 @ new" "quiet new"
            "tasks (snd (pollNavigation env tabId previousUrl (Suc waitCount) w2)) = tasks w2"
            "recordingBuffers (snd (pollNavigation env tabId previousUrl (Suc waitCount) w2))
               = recordingBuffers w2"
            "storedRecordingBuffers (snd (pollNavigation env tabId previousUrl (Suc waitCount) w2))
               = storedRecordingBuffers w2"
          by blast
        have step: "pollNavigation env tabId previousUrl waitCount w =
                    pollNavigation env tabId previousUrl (Suc waitCount) w2"
          using lt g Inr False
          by (subst pollNavigation.simps) (auto simp: w1_def [symmetric] Let_def)
        show ?thesis
          unfolding step using n w2
          by (intro exI [of _ "[Timeout 500, TabsGet tabId] @ new"]) (simp add: quiet_def)
      qed
    qed
  qed
qed

lemma conversation_loop_props:
  "conversation_loop env tabId cid steps (buffer, ex, url) w = ((buffer', ex', url'), w') \<Longrightarrow>
   \<exists>new. trace w' = trace w @ new \<and> sentSteps new = steps \<and>
         ex' = ex @ succeededSteps env (trace w) new \<and>
         buf_steps buffer' = buf_steps buffer @ succeededSteps env (trace w) new \<and>
         tasks w' = tasks w"
proof (induction steps arbitrary: buffer ex url w)
  case Nil
  then show ?case by (simp add: sentSteps_def)
next
  case (Cons step rest)
  define pre where "pre = (if step_type step = Click \<or> step_type step = Wait
                           then [Timeout 1000] else [])"
  define w1 where "w1 = (if step_type step = Click \<or> step_type step = Wait
                         then setTimeout 1000 w else w)"
  define w2 where "w2 = updateConversation cid [] True w1"
  define w3 where "w3 = w2\<lparr>trace := trace w2 @ [ExecuteStep tabId step]\<rparr>"
  define answer where "answer = tabsSendStep env (trace w2) tabId step"
  have qpre: "quiet pre" by (simp add: pre_def quiet_def)
  have t2: "trace w2 = trace w @ pre" "tasks w2 = tasks w"
    by (simp_all add: w2_def w1_def pre_def updateConversation_keeps setTimeout_def)
  have t3: "trace w3 = trace w @ pre @ [ExecuteStep tabId step]" "tasks w3 = tasks w"
    by (simp_all add: w3_def t2)
  have send: "sendStepToTab env tabId step w2 =
                ((case answer of Inl m \<Rightarrow> Inl (Error m) | Inr r \<Rightarrow> Inr r), w3)"
    by (simp add: sendStepToTab_def answer_def w3_def)
  have head: "succeededSteps env (trace w) (pre @ ExecuteStep tabId step # more) =
              (if succeeded answer then [step] else []) @
              succeededSteps env (trace w @ pre @ [ExecuteStep tabId step]) more" for more
    by (simp add: succeededSteps_append quiet_succeededSteps [OF qpre] answer_def t2)
  have sent: "sentSteps (pre @ ExecuteStep tabId step # more) = step # sentSteps more" for more
    by (simp add: sentSteps_append quiet_sentSteps [OF qpre]) (simp add: sentSteps_def)
  show ?case
  proof (cases "succeeded answer")
    case False
    have run: "conversation_loop env tabId cid (step # rest) (buffer, ex, url) w =
               conversation_loop env tabId cid rest (buffer, ex, url) w3"
      using False send
      by (simp add: w1_def [symmetric] w2_def [symmetric] Let_def succeeded_def
               split: sum.splits)
    from Cons.IH [OF Cons.prems [unfolded run]] obtain new where
      n: "trace w' = trace w3 @ new" "sentSteps new = rest"
         "ex' = ex @ succeededSteps env (trace w3) new"
         "buf_steps buffer' = buf_steps buffer @ succeededSteps env (trace w3) new"
         "tasks w' = tasks w3"
      by blast
    show ?thesis
      using n t3 False
      by (intro exI [of _ "pre @ ExecuteStep tabId step # new"]) (simp add: head sent)
  next
    case True
    then obtain r where r: "answer = Inr r" "success r"
      by (auto simp: succeeded_def split: sum.splits)
    define buffer2 where "buffer2 = buffer\<lparr>buf_steps := buf_steps buffer @ [step]\<rparr>"
    define w4 where "w4 = upsertRecordingBuffer buffer2
                           (w3\<lparr>recordingBuffers := mapSet tabId buffer2 (recordingBuffers w3)\<rparr>)"
    define w5 where "w5 = updateConversation cid [] True w4"
    define nav where "nav = (if step_type step = Click
                             then pollNavigation env tabId url 0 w5
                             else (url, setTimeout 500 w5))"
    have t5: "trace w5 = trace w3" "tasks w5 = tasks w3"
      by (simp_all add: w5_def w4_def updateConversation_keeps upsertRecordingBuffer_def)
    obtain post where post: "trace (snd nav) = trace w5 @ post" "quiet post"
        "tasks (snd nav) = tasks w5"
    proof (cases "step_type step = Click")
      case True
      then show ?thesis
        using pollNavigation_quiet [of env tabId url 0 w5] that by (auto simp: nav_def)
    next
      case False
      then show ?thesis
        using that [of "[Timeout 500]"] by (simp add: nav_def setTimeout_def quiet_def)
    qed
    have run: "conversation_loop env tabId cid (step # rest) (buffer, ex, url) w =
               conversation_loop env tabId cid rest (buffer2, ex @ [step], fst nav) (snd nav)"
      using r send
      by (simp add: w1_def [symmetric] w2_def [symmetric] Let_def buffer2_def [symmetric]
            w4_def [symmetric] w5_def [symmetric] split_beta)
         (simp add: nav_def)
    from Cons.IH [OF Cons.prems [unfolded run]] obtain new where
      n: "trace w' = trace (snd nav) @ new" "sentSteps new = rest"
         "ex' = (ex @ [step]) @ succeededSteps env (trace (snd nav)) new"
         "buf_steps buffer' = buf_steps buffer2 @ succeededSteps env (trace (snd nav)) new"
         "tasks w' = tasks (snd nav)"
      by blast
    have tn: "trace (snd nav) = trace w @ pre @ [ExecuteStep tabId step] @ post"
      using post t5 t3 by simp
    have s1: "sentSteps (pre @ ExecuteStep tabId step # post @ new) = step # rest"
    proof -
      have "sentSteps (post @ new) = rest"
        using n(2) by (simp add: sentSteps_append quiet_sentSteps [OF post(2)])
      then show ?thesis by (simp add: sent)
    qed
    have "succeededSteps env (trace w @ pre @ [ExecuteStep tabId step]) (post @ new) =
          succeededSteps env (trace (snd nav)) new"
      by (simp add: succeededSteps_append quiet_succeededSteps [OF post(2)] tn)
    then have s2: "succeededSteps env (trace w) (pre @ ExecuteStep tabId step # post @ new) =
                   step # succeededSteps env (trace (snd nav)) new"
      using True by (simp add: head)
    have b2: "buf_steps buffer2 = buf_steps buffer @ [step]"
      by (simp add: buffer2_def)
    show ?thesis
      using n(1,3,4,5) tn post(3) t5(2) t3(2)
      by (intro exI [of _ "pre @ ExecuteStep tabId step # post @ new"])
         (simp add: s1 s2 b2)
  qed
qed

lemma stepsWithIds_keeps:
  "trace (snd (stepsWithIds env url ss w)) = trace w \<and>
   tasks (snd (stepsWithIds env url ss w)) = tasks w"
  by (induction ss arbitrary: w) (auto simp: randomId_def Let_def split_beta)

lemma reportRound_quiet:
  "\<exists>new. trace (snd (reportRound env tabId message hist response steps w)) = trace w @ new \<and>
         quiet new \<and>
         tasks (snd (reportRound env tabId message hist response steps w)) = tasks w"
proof -
  have q: "quiet [TabNotify tabId GetPageContentMsg]"
          "quiet [TabNotify tabId GetPageContentMsg, LlmCall x]" for x
    by (simp_all add: quiet_def)
  show ?thesis
    unfolding reportRound_def tabsSendMessage_call_def runConversation_call_def
    by (auto simp: quiet_def split: sum.splits TabResponse.splits option.splits prod.splits)
qed

lemma mapGet_mapDelete: "mapGet k (mapDelete k m) = None"
  by (induction m) (auto simp: mapGet_def mapDelete_def)

lemma getRecordingBuffer_removed:
  "getRecordingBuffer tabId (removeRecordingBuffer tabId w) = None"
  by (auto simp: getRecordingBuffer_def removeRecordingBuffer_def find_None_iff)

lemma randomId_keeps:
  "trace (snd (randomId env prefix w)) = trace w \<and> tasks (snd (randomId env prefix w)) = tasks w"
  by (simp add: randomId_def)

lemma nowIso_keeps:
  "trace (snd (nowIso env w)) = trace w \<and> tasks (snd (nowIso env w)) = tasks w"
  by (simp add: nowIso_def)

lemma tabsSendMessage_call_keeps:
  "trace (snd (tabsSendMessage_call env tabId m w)) = trace w @ [TabNotify tabId m] \<and>
   tasks (snd (tabsSendMessage_call env tabId m w)) = tasks w"
  by (simp add: tabsSendMessage_call_def)

lemma executeBranch_completed:
  assumes "executeBranch env tabId cid message hist url response llmSteps w
             = (Inr (executedSteps, report), w')"
  shows "(\<exists>new. trace w' = trace w @ new \<and>
                sentSteps new = fst (stepsWithIds env url llmSteps w) \<and>
                executedSteps = succeededSteps env (trace w) new) \<and>
         mapGet tabId (recordingBuffers w') = None \<and>
         getRecordingBuffer tabId w' = None \<and>
         tasks w' = tasks w"
proof -
  obtain steps w1 where s: "stepsWithIds env url llmSteps w = (steps, w1)"
    by (cases "stepsWithIds env url llmSteps w") auto
  obtain sid w2 where r2: "randomId env ''rec'' w1 = (sid, w2)"
    by (cases "randomId env ''rec'' w1") auto
  obtain now w3 where r3: "nowIso env w2 = (now, w3)"
    by (cases "nowIso env w2") auto
  define buffer where
    "buffer = \<lparr>buf_tabId = tabId, sessionId = sid, buf_steps = [], buf_startedAt = now\<rparr>"
  define w4 where "w4 = upsertRecordingBuffer buffer
      (w3\<lparr>recordingBuffers := mapSet tabId buffer (recordingBuffers w3)\<rparr>)"
  obtain a5 w5 where r5: "tabsSendMessage_call env tabId StartRecordingMsg w4 = (a5, w5)"
    by (cases "tabsSendMessage_call env tabId StartRecordingMsg w4") auto
  define w6 where "w6 = updateConversation cid [(Assistant, response)] True w5"
  obtain buffer' ex' url' w7 where
    l: "conversation_loop env tabId cid steps (buffer, [], url) w6 = ((buffer', ex', url'), w7)"
    by (cases "conversation_loop env tabId cid steps (buffer, [], url) w6") auto
  obtain rep w8 where rr: "reportRound env tabId message hist response steps w7 = (rep, w8)"
    by (cases "reportRound env tabId message hist response steps w7") auto
  obtain a9 w9 where r9: "tabsSendMessage_call env tabId StopRecordingMsg w8 = (a9, w9)"
    by (cases "tabsSendMessage_call env tabId StopRecordingMsg w8") auto
  have k3: "trace w3 = trace w" "tasks w3 = tasks w"
    using stepsWithIds_keeps [of env url llmSteps w] randomId_keeps [of env "''rec''" w1]
          nowIso_keeps [of env w2] s r2 r3
    by simp_all
  have k5: "trace w5 = trace w @ [TabNotify tabId StartRecordingMsg]" "tasks w5 = tasks w"
    using tabsSendMessage_call_keeps [of env tabId StartRecordingMsg w4] r5 k3
    by (simp_all add: w4_def upsertRecordingBuffer_def)
  have k6: "trace w6 = trace w @ [TabNotify tabId StartRecordingMsg]" "tasks w6 = tasks w"
    by (simp_all add: w6_def updateConversation_keeps k5)
  from conversation_loop_props [OF l] obtain new where
    n: "trace w7 = trace w6 @ new" "sentSteps new = steps"
       "ex' = succeededSteps env (trace w6) new" "tasks w7 = tasks w6"
    by auto
  from reportRound_quiet [of env tabId message hist response steps w7] rr obtain rnew where
    rn: "trace w8 = trace w7 @ rnew" "quiet rnew" "tasks w8 = tasks w7"
    by auto
  have k9: "trace w9 = trace w8 @ [TabNotify tabId StopRecordingMsg]" "tasks w9 = tasks w8"
    using tabsSendMessage_call_keeps [of env tabId StopRecordingMsg w8] r9 by simp_all
  have unfolded: "executeBranch env tabId cid message hist url response llmSteps w =
      (case a5 of
         Inl e \<Rightarrow> (Inl e, w5)
       | Inr r \<Rightarrow>
           (case a9 of
              Inl e \<Rightarrow> (Inl e, w9)
            | Inr r' \<Rightarrow>
                (Inr (ex', rep),
                 removeRecordingBuffer tabId
                   (w9\<lparr>recordingBuffers := mapDelete tabId (recordingBuffers w9)\<rparr>))))"
    by (simp add: executeBranch_def s r2 r3 Let_def buffer_def [symmetric] w4_def [symmetric]
          r5 w6_def [symmetric] l rr r9 split: sum.splits)
  from assms [unfolded unfolded] have
    res: "executedSteps = ex'"
         "w' = removeRecordingBuffer tabId
                 (w9\<lparr>recordingBuffers := mapDelete tabId (recordingBuffers w9)\<rparr>)"
    by (auto split: sum.splits)
  let ?new = "TabNotify tabId StartRecordingMsg # new @ rnew @ [TabNotify tabId StopRecordingMsg]"
  have q1: "quiet [TabNotify tabId StartRecordingMsg]"
           "quiet (rnew @ [TabNotify tabId StopRecordingMsg])"
    using rn(2) by (simp_all add: quiet_def)
  have tr: "trace w' = trace w @ ?new"
    by (simp add: res(2) removeRecordingBuffer_def k9(1) rn(1) n(1) k6(1))
  have sent: "sentSteps ?new = steps"
    using sentSteps_append [of "[TabNotify tabId StartRecordingMsg]"
                             "new @ rnew @ [TabNotify tabId StopRecordingMsg]"]
          sentSteps_append [of new "rnew @ [TabNotify tabId StopRecordingMsg]"]
    by (simp add: quiet_sentSteps [OF q1(1)] quiet_sentSteps [OF q1(2)] n(2))
  have succ: "succeededSteps env (trace w) ?new = ex'"
    using succeededSteps_append [of env "trace w" "[TabNotify tabId StartRecordingMsg]"
                             "new @ rnew @ [TabNotify tabId StopRecordingMsg]"]
          succeededSteps_append [of env "trace w6" new
                             "rnew @ [TabNotify tabId StopRecordingMsg]"]
    by (simp add: quiet_succeededSteps [OF q1(1)] quiet_succeededSteps [OF q1(2)] n(3) k6(1))
  have t: "tasks w' = tasks w"
    by (simp add: res(2) removeRecordingBuffer_def k9(2) rn(3) n(4) k6(2))
  have g: "getRecordingBuffer tabId w' = None"
    unfolding res(2) by (rule getRecordingBuffer_removed)
  have m: "mapGet tabId (recordingBuffers w') = None"
    by (simp add: res(2) removeRecordingBuffer_def mapGet_mapDelete)
  show ?thesis
    using tr sent succ t g m s res(1) by auto
qed

lemma executeBranch_tasks:
  "tasks (snd (executeBranch env tabId cid message hist url response llmSteps w)) = tasks w"
proof -
  obtain steps w1 where s: "stepsWithIds env url llmSteps w = (steps, w1)"
    by (cases "stepsWithIds env url llmSteps w") auto
  obtain sid w2 where r2: "randomId env ''rec'' w1 = (sid, w2)"
    by (cases "randomId env ''rec'' w1") auto
  obtain now w3 where r3: "nowIso env w2 = (now, w3)"
    by (cases "nowIso env w2") auto
  define buffer where
    "buffer = \<lparr>buf_tabId = tabId, sessionId = sid, buf_steps = [], buf_startedAt = now\<rparr>"
  define w4 where "w4 = upsertRecordingBuffer buffer
      (w3\<lparr>recordingBuffers := mapSet tabId buffer (recordingBuffers w3)\<rparr>)"
  obtain a5 w5 where r5: "tabsSendMessage_call env tabId StartRecordingMsg w4 = (a5, w5)"
    by (cases "tabsSendMessage_call env tabId StartRecordingMsg w4") auto
  define w6 where "w6 = updateConversation cid [(Assistant, response)] True w5"
  obtain buffer' ex' url' w7 where
    l: "conversation_loop env tabId cid steps (buffer, [], url) w6 = ((buffer', ex', url'), w7)"
    by (cases "conversation_loop env tabId cid steps (buffer, [], url) w6") auto
  obtain rep w8 where rr: "reportRound env tabId message hist response steps w7 = (rep, w8)"
    by (cases "reportRound env tabId message hist response steps w7") auto
  obtain a9 w9 where r9: "tabsSendMessage_call env tabId StopRecordingMsg w8 = (a9, w9)"
    by (cases "tabsSendMessage_call env tabId StopRecordingMsg w8") auto
  have k3: "tasks w3 = tasks w"
    using stepsWithIds_keeps [of env url llmSteps w] randomId_keeps [of env "''rec''" w1]
          nowIso_keeps [of env w2] s r2 r3
    by simp
  have k5: "tasks w5 = tasks w"
    using tabsSendMessage_call_keeps [of env tabId StartRecordingMsg w4] r5 k3
    by (simp add: w4_def upsertRecordingBuffer_def)
  have k7: "tasks w7 = tasks w"
    using conversation_loop_props [OF l] by (auto simp: w6_def updateConversation_keeps k5)
  have k8: "tasks w8 = tasks w"
    using reportRound_quiet [of env tabId message hist response steps w7] rr k7 by auto
  have k9: "tasks w9 = tasks w"
    using tabsSendMessage_call_keeps [of env tabId StopRecordingMsg w8] r9 k8 by simp
  have unfolded: "executeBranch env tabId cid message hist url response llmSteps w =
      (case a5 of
         Inl e \<Rightarrow> (Inl e, w5)
       | Inr r \<Rightarrow>
           (case a9 of
              Inl e \<Rightarrow> (Inl e, w9)
            | Inr r' \<Rightarrow>
                (Inr (ex', rep),
                 removeRecordingBuffer tabId
                   (w9\<lparr>recordingBuffers := mapDelete tabId (recordingBuffers w9)\<rparr>))))"
    by (simp add: executeBranch_def s r2 r3 Let_def buffer_def [symmetric] w4_def [symmetric]
          r5 w6_def [symmetric] l rr r9 split: sum.splits)
  show ?thesis
    unfolding unfolded using k5 k9
    by (auto simp: removeRecordingBuffer_def split: sum.splits)
qed

lemma getDomInfo_keeps:
  "trace (snd (getDomInfo env tabId w)) = trace w @ [TabNotify tabId GetPageDomInfoMsg] \<and>
   tasks (snd (getDomInfo env tabId w)) = tasks w"
  by (auto simp: getDomInfo_def tabsSendMessage_call_def
           split: sum.splits TabResponse.splits option.splits)

lemma conversationIdOf_keeps:
  "trace (snd (conversationIdOf env message w)) = trace w \<and>
   tasks (snd (conversationIdOf env message w)) = tasks w"
  by (simp add: conversationIdOf_def randomId_def)

lemma performAction_tasks:
  "tasks (snd (performAction env tabId cid message hist url result w)) = tasks w"
  by (auto simp: performAction_def executeBranch_tasks split: option.splits LlmAction.splits)

lemma handleRunLlmConversation_tasks:
  "tasks (snd (handleRunLlmConversation env message w)) = tasks w"
proof -
  obtain a1 w1 where g1: "getActiveTabId env w = (a1, w1)"
    by (cases "getActiveTabId env w") auto
  have k1: "tasks w1 = tasks w"
    using getActiveTabId_world [OF g1] by simp
  show ?thesis
  proof (cases a1)
    case (Inl e)
    then show ?thesis
      using g1 k1 by (cases e) (simp add: handleRunLlmConversation_def)
  next
    case tabId: (Inr tabId)
    obtain a2 w2 where g2: "tabsGet_call env tabId w1 = (a2, w2)"
      by (cases "tabsGet_call env tabId w1") auto
    have k2: "tasks w2 = tasks w"
      using g2 k1 by (auto simp: tabsGet_call_def)
    show ?thesis
    proof (cases a2)
      case (Inl e)
      then show ?thesis
        using g1 g2 k2 tabId by (cases e) (simp add: handleRunLlmConversation_def)
    next
      case tab: (Inr tab)
      define currentUrl where "currentUrl = (if truthy (tab_url tab) then the (tab_url tab) else [])"
      obtain dom w3 where g3: "getDomInfo env tabId w2 = (dom, w3)"
        by (cases "getDomInfo env tabId w2") auto
      obtain cid w4 where g4: "conversationIdOf env message w3 = (cid, w4)"
        by (cases "conversationIdOf env message w3") auto
      have k4: "tasks w4 = tasks w"
        using getDomInfo_keeps [of env tabId w2] conversationIdOf_keeps [of env message w3]
              g3 g4 k2 by simp
      define hist where "hist = (case msg_history message of None \<Rightarrow> [] | Some h \<Rightarrow> h)"
      define state where "state = \<lparr>conversationId = cid,
                   history = hist @ [(User, msg_message message)],
                   conv_tabId = tabId, isActive = True\<rparr>"
      define w5 where "w5 = saveConversationState state
                 (w4\<lparr>conversationStates := mapSet cid state (conversationStates w4)\<rparr>)"
      have k5: "tasks w5 = tasks w"
        by (simp add: w5_def saveConversationState_def k4)
      obtain a6 w6 where g6: "runConversation_call env (msg_message message) hist currentUrl
                                 dom w5 = (a6, w6)"
        by (cases "runConversation_call env (msg_message message) hist currentUrl dom w5") auto
      have k6: "tasks w6 = tasks w"
        using g6 k5 by (auto simp: runConversation_call_def)
      have unfolded: "handleRunLlmConversation env message w =
        (case a6 of
           Inl (Error m) \<Rightarrow> (RespError m, w6)
         | Inr result \<Rightarrow>
             (case performAction env tabId cid message hist currentUrl result w6 of
                (Inl (Error m), w7) \<Rightarrow> (RespError m, w7)
              | (Inr (executedSteps, reportContent), w7) \<Rightarrow>
                  (RespLlmConversation cid (conv_response result)
                     (if executedSteps \<noteq> [] then Some executedSteps else None) reportContent,
                   updateConversation cid [(Assistant, conv_response result)] False w7)))"
        using g1 tabId g2 tab
        by (simp add: handleRunLlmConversation_def Let_def currentUrl_def [symmetric] g3 g4
              hist_def [symmetric] state_def [symmetric] w5_def [symmetric] g6)
      have p: "tasks w7 = tasks w"
        if "performAction env tabId cid message hist currentUrl result w6 = (r, w7)"
        for result r w7
        using performAction_tasks [of env tabId cid message hist currentUrl result w6] that k6
        by simp
      show ?thesis
        unfolding unfolded using k6
        by (auto simp: updateConversation_keeps dest: p
                 split: sum.splits error.splits prod.splits)
    qed
  qed
qed

lemma executeBranch_shape:
  "\<exists>a5 a9 ex' w5 w7 w9 wf tr5 tr9.
     executeBranch env tabId cid message hist url response llmSteps w =
       (case a5 of
          Inl e \<Rightarrow> (Inl e, w5)
        | Inr r \<Rightarrow>
            (case a9 of
               Inl e \<Rightarrow> (Inl e, w9)
             | Inr r' \<Rightarrow>
                 (Inr (ex', fst (reportRound env tabId message hist response
                                   (fst (stepsWithIds env url llmSteps w)) w7)), wf))) \<and>
     a5 = (case tabsSendMessage env tr5 tabId StartRecordingMsg of
             Inl e \<Rightarrow> Inl (Error e) | Inr r \<Rightarrow> Inr r) \<and>
     a9 = (case tabsSendMessage env tr9 tabId StopRecordingMsg of
             Inl e \<Rightarrow> Inl (Error e) | Inr r \<Rightarrow> Inr r)"
proof -
  obtain steps w1 where s: "stepsWithIds env url llmSteps w = (steps, w1)"
    by (cases "stepsWithIds env url llmSteps w") auto
  obtain sid w2 where r2: "randomId env ''rec'' w1 = (sid, w2)"
    by (cases "randomId env ''rec'' w1") auto
  obtain now w3 where r3: "nowIso env w2 = (now, w3)"
    by (cases "nowIso env w2") auto
  define buffer where
    "buffer = \<lparr>buf_tabId = tabId, sessionId = sid, buf_steps = [], buf_startedAt = now\<rparr>"
  define w4 where "w4 = upsertRecordingBuffer buffer
      (w3\<lparr>recordingBuffers := mapSet tabId buffer (recordingBuffers w3)\<rparr>)"
  obtain a5 w5 where r5: "tabsSendMessage_call env tabId StartRecordingMsg w4 = (a5, w5)"
    by (cases "tabsSendMessage_call env tabId StartRecordingMsg w4") auto
  define w6 where "w6 = updateConversation cid [(Assistant, response)] True w5"
  obtain buffer' ex' url' w7 where
    l: "conversation_loop env tabId cid steps (buffer, [], url) w6 = ((buffer', ex', url'), w7)"
    by (cases "conversation_loop env tabId cid steps (buffer, [], url) w6") auto
  obtain rep w8 where rr: "reportRound env tabId message hist response steps w7 = (rep, w8)"
    by (cases "reportRound env tabId message hist response steps w7") auto
  obtain a9 w9 where r9: "tabsSendMessage_call env tabId StopRecordingMsg w8 = (a9, w9)"
    by (cases "tabsSendMessage_call env tabId StopRecordingMsg w8") auto
  have unfolded: "executeBranch env tabId cid message hist url response llmSteps w =
      (case a5 of
         Inl e \<Rightarrow> (Inl e, w5)
       | Inr r \<Rightarrow>
           (case a9 of
              Inl e \<Rightarrow> (Inl e, w9)
            | Inr r' \<Rightarrow>
                (Inr (ex', fst (reportRound env tabId message hist response
                                  (fst (stepsWithIds env url llmSteps w)) w7)),
                 removeRecordingBuffer tabId
                   (w9\<lparr>recordingBuffers := mapDelete tabId (recordingBuffers w9)\<rparr>))))"
    by (simp add: executeBranch_def s r2 r3 Let_def buffer_def [symmetric] w4_def [symmetric]
          r5 w6_def [symmetric] l rr r9 split: sum.splits)
  have a5: "a5 = (case tabsSendMessage env (trace w4) tabId StartRecordingMsg of
             Inl e \<Rightarrow> Inl (Error e) | Inr r \<Rightarrow> Inr r)"
    using r5 by (auto simp: tabsSendMessage_call_def)
  have a9: "a9 = (case tabsSendMessage env (trace w8) tabId StopRecordingMsg of
             Inl e \<Rightarrow> Inl (Error e) | Inr r \<Rightarrow> Inr r)"
    using r9 by (auto simp: tabsSendMessage_call_def)
  from unfolded a5 a9 show ?thesis by blast
qed

lemma ex_succeeded:
  "succeededSteps ex_llmEnv pre tr = filter (\<lambda>s. step_id s \<noteq> ''bad'') (sentSteps tr)"
  by (induction tr arbitrary: pre)
     (auto simp: sentSteps_def succeeded_def ex_llmEnv_def split: event.splits)

lemma ex_stepsWithIds:
  "stepsWithIds ex_llmEnv ''https://example.com/''
     [ex_fill ''s1'', ex_fill ''bad'', ex_fill ''s3''] w
   = ([ex_sent ''s1'', ex_sent ''bad'', ex_sent ''s3''], w)"
  by (simp add: ex_sent_def ex_fill_def ex_step_def truthy_def)

lemma ex_ids:
  "step_id (ex_sent ''s1'') = ''s1''" "step_id (ex_sent ''bad'') = ''bad''"
  "step_id (ex_sent ''s3'') = ''s3''" "step_type (ex_sent ''s3'') = Input"
  by (simp_all add: ex_sent_def ex_fill_def ex_step_def)

lemma ex_executeBranch:
  "fst (executeBranch ex_llmEnv 1 ''c1'' ex_message [] ''https://example.com/'' ''ok''
          [ex_fill ''s1'', ex_fill ''bad'', ex_fill ''s3''] w)
     = Inr ([ex_sent ''s1'', ex_sent ''s3''], None) \<and>
   sentSteps (trace (snd (executeBranch ex_llmEnv 1 ''c1'' ex_message [] ''https://example.com/''
          ''ok'' [ex_fill ''s1'', ex_fill ''bad'', ex_fill ''s3''] w)))
     = sentSteps (trace w) @ [ex_sent ''s1'', ex_sent ''bad'', ex_sent ''s3'']"
proof -
  let ?E = "executeBranch ex_llmEnv 1 ''c1'' ex_message [] ''https://example.com/'' ''ok''
          [ex_fill ''s1'', ex_fill ''bad'', ex_fill ''s3''] w"
  from executeBranch_shape [of ex_llmEnv 1 "''c1''" ex_message "[]" "''https://example.com/''"
          "''ok''" "[ex_fill ''s1'', ex_fill ''bad'', ex_fill ''s3'']" w]
  obtain a5 a9 ex' w5 w7 w9 wf tr5 tr9 where
    sh0: "?E = (case a5 of
          Inl e \<Rightarrow> (Inl e, w5)
        | Inr r \<Rightarrow>
            (case a9 of
               Inl e \<Rightarrow> (Inl e, w9)
             | Inr r' \<Rightarrow>
                 (Inr (ex', fst (reportRound ex_llmEnv 1 ex_message [] ''ok''
                                   (fst (stepsWithIds ex_llmEnv ''https://example.com/''
                                      [ex_fill ''s1'', ex_fill ''bad'', ex_fill ''s3''] w)) w7)), wf)))"
    and a5: "a5 = (case tabsSendMessage ex_llmEnv tr5 1 StartRecordingMsg of
             Inl e \<Rightarrow> Inl (Error e) | Inr r \<Rightarrow> Inr r)"
    and a9: "a9 = (case tabsSendMessage ex_llmEnv tr9 1 StopRecordingMsg of
             Inl e \<Rightarrow> Inl (Error e) | Inr r \<Rightarrow> Inr r)"
    by blast
  have m: "tabsSendMessage ex_llmEnv tr t msg = Inr OtherResponse" for tr t msg
    by (simp add: ex_llmEnv_def)
  have r: "fst (reportRound ex_llmEnv t ex_message [] ''ok''
                  [ex_sent ''s1'', ex_sent ''bad'', ex_sent ''s3''] w7) = None" for t
    by (simp add: reportRound_def ex_ids)
  have sh: "?E = (Inr (ex', None), wf)"
    unfolding sh0 a5 a9 by (simp add: m ex_stepsWithIds r del: stepsWithIds.simps)
  from executeBranch_completed [OF sh] obtain new where
    n: "trace wf = trace w @ new" "sentSteps new = [ex_sent ''s1'', ex_sent ''bad'', ex_sent ''s3'']"
       "ex' = succeededSteps ex_llmEnv (trace w) new"
    by (auto simp: ex_stepsWithIds simp del: stepsWithIds.simps)
  have "ex' = [ex_sent ''s1'', ex_sent ''s3'']"
    by (simp add: n(3) ex_succeeded n(2) ex_ids)
  then show ?thesis
    using sh n by (simp add: sentSteps_append)
qed


declare conversation_loop.simps [simp del]

text \<open>
  Claim C3, as stated, fails. The LLM proposes three steps; the tab reports the second
  one (\<open>bad\<close>) as failed. All three steps are sent, so the failure does not abort the
  loop. But the recording buffer and the list of executed steps end up with the first and
  the third step only: the failed step is not recorded, with or without an error note.
  After the list the buffer of the tab is removed, and the whole handler leaves the
  stored tasks as they were: no Task is created.
\<close>

theorem conversation_drops_failed_step:
  "succeeded (tabsSendStep ex_llmEnv [] 1 (ex_sent ''bad'')) = False \<and>
   sentSteps (trace (snd (executeBranch ex_llmEnv 1 ''c1'' ex_message [] ''https://example.com/''
          ''ok'' [ex_fill ''s1'', ex_fill ''bad'', ex_fill ''s3''] ex_world)))
     = [ex_sent ''s1'', ex_sent ''bad'', ex_sent ''s3''] \<and>
   fst (executeBranch ex_llmEnv 1 ''c1'' ex_message [] ''https://example.com/'' ''ok''
          [ex_fill ''s1'', ex_fill ''bad'', ex_fill ''s3''] ex_world)
     = Inr ([ex_sent ''s1'', ex_sent ''s3''], None) \<and>
   buf_steps (fst (fst (conversation_loop ex_llmEnv 1 ''c1''
          [ex_sent ''s1'', ex_sent ''bad'', ex_sent ''s3'']
          (ex_buffer, [], ''https://example.com/'') ex_world)))
     = [ex_sent ''s1'', ex_sent ''s3''] \<and>
   getRecordingBuffer 1 (snd (executeBranch ex_llmEnv 1 ''c1'' ex_message []
          ''https://example.com/'' ''ok''
          [ex_fill ''s1'', ex_fill ''bad'', ex_fill ''s3''] ex_world)) = None \<and>
   tasks (snd (handleRunLlmConversation ex_llmEnv ex_message ex_world)) = []"
proof -
  let ?E = "executeBranch ex_llmEnv 1 ''c1'' ex_message [] ''https://example.com/'' ''ok''
          [ex_fill ''s1'', ex_fill ''bad'', ex_fill ''s3''] ex_world"
  let ?L = "conversation_loop ex_llmEnv 1 ''c1'' [ex_sent ''s1'', ex_sent ''bad'', ex_sent ''s3'']
          (ex_buffer, [], ''https://example.com/'') ex_world"
  have a: "succeeded (tabsSendStep ex_llmEnv [] 1 (ex_sent ''bad'')) = False"
    by (simp add: succeeded_def ex_llmEnv_def ex_ids)
  have e: "?E = (Inr ([ex_sent ''s1'', ex_sent ''s3''], None), snd ?E)"
    using ex_executeBranch [of ex_world] by (metis prod.collapse)
  have b: "sentSteps (trace (snd ?E)) = [ex_sent ''s1'', ex_sent ''bad'', ex_sent ''s3'']"
    using ex_executeBranch [of ex_world] by (simp add: ex_world_def sentSteps_def)
  have g: "getRecordingBuffer 1 (snd ?E) = None"
    using executeBranch_completed [OF e] by simp
  have l: "?L = ((fst (fst ?L), fst (snd (fst ?L)), snd (snd (fst ?L))), snd ?L)"
    by simp
  from conversation_loop_props [OF l] obtain new where
    n: "sentSteps new = [ex_sent ''s1'', ex_sent ''bad'', ex_sent ''s3'']"
       "buf_steps (fst (fst ?L)) = buf_steps ex_buffer @ succeededSteps ex_llmEnv (trace ex_world) new"
    by blast
  have c: "buf_steps (fst (fst ?L)) = [ex_sent ''s1'', ex_sent ''s3'']"
    unfolding n(2) by (simp add: n(1) ex_succeeded ex_ids ex_buffer_def)
  have t: "tasks (snd (handleRunLlmConversation ex_llmEnv ex_message ex_world)) = []"
    by (simp add: handleRunLlmConversation_tasks ex_world_def)
  have e1: "fst ?E = Inr ([ex_sent ''s1'', ex_sent ''s3''], None)"
    using ex_executeBranch [of ex_world] by blast
  from a b e1 c g t show ?thesis by blast
qed

text \<open>
  Claim C3, amended. In the conversational loop a failing step, whether the tab answers
  with a failure or the send raises an error, does not abort the loop: every step of the
  list is sent, in order. Only the steps that were answered with success are appended to
  the recording buffer and to the list of executed steps; a failed step is not recorded.
  When the \<open>execute\<close> branch completes, the recording buffer of the tab is gone from
  memory and from storage, and the handler never changes the stored tasks: no Task is
  created.
\<close>

theorem conversation_ignores_failures:
  "tasks (snd (handleRunLlmConversation env message w)) = tasks w \<and>
   (conversation_loop env tabId cid steps (buffer, executed, url) w
      = ((buffer', executed', url'), w') \<longrightarrow>
      (\<exists>new. trace w' = trace w @ new \<and> sentSteps new = steps \<and>
             executed' = executed @ succeededSteps env (trace w) new \<and>
             buf_steps buffer' = buf_steps buffer @ succeededSteps env (trace w) new)) \<and>
   (executeBranch env tabId cid message hist url response llmSteps w
      = (Inr (executedSteps, report), w'') \<longrightarrow>
      (\<exists>new. trace w'' = trace w @ new \<and>
             sentSteps new = fst (stepsWithIds env url llmSteps w) \<and>
             executedSteps = succeededSteps env (trace w) new) \<and>
      mapGet tabId (recordingBuffers w'') = None \<and>
      getRecordingBuffer tabId w'' = None \<and>
      tasks w'' = tasks w)"
  using handleRunLlmConversation_tasks [of env message w]
        conversation_loop_props [of env tabId cid steps buffer executed url w buffer' executed' url' w']
        executeBranch_completed [of env tabId cid message hist url response llmSteps w
                                    executedSteps report w'']
  by blast

theorem conversation_ignores_failures_witness:
  "fst (executeBranch ex_llmEnv 1 ''c1'' ex_message [] ''https://example.com/'' ''ok''
          [ex_fill ''s1'', ex_fill ''bad'', ex_fill ''s3''] ex_world)
     = Inr ([ex_sent ''s1'', ex_sent ''s3''], None) \<and>
   mapGet 1 (recordingBuffers (snd (executeBranch ex_llmEnv 1 ''c1'' ex_message []
          ''https://example.com/'' ''ok''
          [ex_fill ''s1'', ex_fill ''bad'', ex_fill ''s3''] ex_world))) = None \<and>
   tasks (snd (executeBranch ex_llmEnv 1 ''c1'' ex_message []
          ''https://example.com/'' ''ok''
          [ex_fill ''s1'', ex_fill ''bad'', ex_fill ''s3''] ex_world)) = [] \<and>
   fst (snd (fst (conversation_loop ex_llmEnv 1 ''c1''
          [ex_sent ''s1'', ex_sent ''bad'', ex_sent ''s3'']
          (ex_buffer, [], ''https://example.com/'') ex_world)))
     = [ex_sent ''s1'', ex_sent ''s3'']"
proof -
  let ?E = "executeBranch ex_llmEnv 1 ''c1'' ex_message [] ''https://example.com/'' ''ok''
          [ex_fill ''s1'', ex_fill ''bad'', ex_fill ''s3''] ex_world"
  let ?L = "conversation_loop ex_llmEnv 1 ''c1'' [ex_sent ''s1'', ex_sent ''bad'', ex_sent ''s3'']
          (ex_buffer, [], ''https://example.com/'') ex_world"
  have e: "?E = (Inr ([ex_sent ''s1'', ex_sent ''s3''], None), snd ?E)"
    using ex_executeBranch [of ex_world] by (metis prod.collapse)
  have l: "?L = ((fst (fst ?L), fst (snd (fst ?L)), snd (snd (fst ?L))), snd ?L)"
    by simp
  note T = conversation_ignores_failures [of ex_llmEnv ex_message ex_world 1 "''c1''"
      "[ex_sent ''s1'', ex_sent ''bad'', ex_sent ''s3'']" ex_buffer "[]" "''https://example.com/''"
      "fst (fst ?L)" "fst (snd (fst ?L))" "snd (snd (fst ?L))" "snd ?L"
      "[]" "''ok''" "[ex_fill ''s1'', ex_fill ''bad'', ex_fill ''s3'']"
      "[ex_sent ''s1'', ex_sent ''s3'']" None "snd ?E"]
  from T l obtain new where
    n: "sentSteps new = [ex_sent ''s1'', ex_sent ''bad'', ex_sent ''s3'']"
       "fst (snd (fst ?L)) = [] @ succeededSteps ex_llmEnv (trace ex_world) new"
    by blast
  have c: "fst (snd (fst ?L)) = [ex_sent ''s1'', ex_sent ''s3'']"
    unfolding n(2) by (simp add: n(1) ex_succeeded ex_ids)
  from T e have r: "mapGet 1 (recordingBuffers (snd ?E)) = None" "tasks (snd ?E) = tasks ex_world"
    by blast+
  have r2: "tasks (snd ?E) = []"
    unfolding r(2) by (simp add: ex_world_def)
  have e1: "fst ?E = Inr ([ex_sent ''s1'', ex_sent ''s3''], None)"
    using ex_executeBranch [of ex_world] by blast
  from e1 c r(1) r2 show ?thesis by blast
qed

end
